theory Spec2Isabelle
  imports Main "HOL-Library.Signed_Division" "HOL-Library.Sublist" "HOL-Library.Word"
begin

unbundle bit_operations_syntax

section \<open>The store client the package is written against\<close>

text \<open>
  The package talks to Redis through the \<^verbatim>\<open>redis.Conn\<close> interface of the redigo client.
  A call \<^verbatim>\<open>conn.Do(cmd, args...)\<close> returns a reply and an error and may change the state
  behind the connection. The theory keeps that interface abstract: every function of the
  package takes the method \<open>Do\<close> as a parameter, acting on a state \<open>'w\<close> that stands for
  everything behind the connections (server, transport). Theorems that hold for every
  \<open>Do\<close> hold for every reply a store can give.
\<close>

text \<open>Go error values: the sentinel \<^verbatim>\<open>redis.ErrNil\<close>, an error reply of the server
  (\<^verbatim>\<open>redis.Error\<close>), the error \<^verbatim>\<open>redis.String\<close> makes for a reply of a type it does not
  convert, and any error of the transport.\<close>

datatype error = ErrNil | Error string | UnexpectedType | IOError string

text \<open>Replies as the client decodes them: nil, a bulk string (\<^verbatim>\<open>[]byte\<close>), a status line
  (\<^verbatim>\<open>string\<close>), an integer, an error reply, a multi-bulk reply.\<close>

datatype reply = RNil | RBulk string | RStatus string | RInt int | RError string
  | RMulti "reply list"

text \<open>The \<^verbatim>\<open>interface{}\<close> arguments the package and redigo pass to \<^verbatim>\<open>Do\<close>: a Go
  \<^verbatim>\<open>string\<close>, an \<^verbatim>\<open>int\<close>, an \<^verbatim>\<open>int64\<close>.\<close>

datatype arg = Str string | GoInt int | Int64 int

text \<open>A connection is known by its identity; its state is part of \<open>'w\<close>.\<close>

type_synonym Conn = nat

type_synonym 'w Do = "Conn \<Rightarrow> 'w \<Rightarrow> string \<Rightarrow> arg list \<Rightarrow> (reply \<times> error option) \<times> 'w"

text \<open>\<^verbatim>\<open>redis.String(reply, err)\<close> of redigo: an error passes through; a bulk string or a
  status line is the string; nil is \<^verbatim>\<open>ErrNil\<close>; an error reply is that error; any other
  reply is a type error.\<close>

fun redis_String :: "reply \<times> error option \<Rightarrow> string \<times> error option" where
  "redis_String (r, Some e) = ([], Some e)"
| "redis_String (RBulk b, None) = (b, None)"
| "redis_String (RStatus s, None) = (s, None)"
| "redis_String (RNil, None) = ([], Some ErrNil)"
| "redis_String (RError m, None) = ([], Some (Error m))"
| "redis_String (_, None) = ([], Some UnexpectedType)"

subsection \<open>SHA-1 in hexadecimal\<close>

text \<open>\<^verbatim>\<open>crypto/sha1\<close> and \<^verbatim>\<open>encoding/hex\<close>, which redigo uses to name a script: the
  message is padded with the byte 0x80, zeros and its length in bits as 8 bytes, cut into
  blocks of 16 big-endian words, each block extended to 80 words and run through 80 rounds;
  the five words of the state are written as 40 lower-case hexadecimal digits.\<close>

definition sha1_pad :: "8 word list \<Rightarrow> 8 word list" where
  "sha1_pad m =
     m @ [0x80] @ replicate ((119 - length m mod 64) mod 64) 0
       @ map (\<lambda>i. ucast (drop_bit (8 * (7 - i)) (of_nat (8 * length m) :: 64 word))) [0..<8]"

definition be32 :: "8 word list \<Rightarrow> 32 word" where
  "be32 bs = foldl (\<lambda>acc b. push_bit 8 acc OR ucast b) 0 bs"

definition sha1_words :: "8 word list \<Rightarrow> 32 word list" where
  "sha1_words bs = map (\<lambda>i. be32 (take 4 (drop (4 * i) bs))) [0..<length bs div 4]"

primrec sha1_extend :: "nat \<Rightarrow> 32 word list \<Rightarrow> 32 word list" where
  "sha1_extend 0 ws = ws"
| "sha1_extend (Suc k) ws =
     sha1_extend k
       (ws @ [word_rotl 1 (ws ! (length ws - 3) XOR ws ! (length ws - 8)
                XOR ws ! (length ws - 14) XOR ws ! (length ws - 16))])"

type_synonym sha1_state = "32 word \<times> 32 word \<times> 32 word \<times> 32 word \<times> 32 word"

definition sha1_round :: "32 word list \<Rightarrow> sha1_state \<Rightarrow> nat \<Rightarrow> sha1_state" where
  "sha1_round ws st i =
     (case st of (a, b, c, d, e) \<Rightarrow>
        let f = (if i < 20 then (b AND c) OR (NOT b AND d)
                 else if i < 40 then b XOR c XOR d
                 else if i < 60 then (b AND c) OR (b AND d) OR (c AND d)
                 else b XOR c XOR d);
            k = (if i < 20 then 0x5A827999 else if i < 40 then 0x6ED9EBA1
                 else if i < 60 then 0x8F1BBCDC else 0xCA62C1D6)
        in (word_rotl 5 a + f + e + k + ws ! i, a, word_rotl 30 b, c, d))"

definition sha1_block :: "sha1_state \<Rightarrow> 32 word list \<Rightarrow> sha1_state" where
  "sha1_block h ws =
     (case (h, foldl (sha1_round (sha1_extend 64 ws)) h [0..<80]) of
        ((h0, h1, h2, h3, h4), (a, b, c, d, e)) \<Rightarrow> (h0 + a, h1 + b, h2 + c, h3 + d, h4 + e))"

definition sha1 :: "8 word list \<Rightarrow> 32 word list" where
  "sha1 m =
     (let ws = sha1_words (sha1_pad m)
      in case foldl sha1_block (0x67452301, 0xEFCDAB89, 0x98BADCFE, 0x10325476, 0xC3D2E1F0)
                (map (\<lambda>i. take 16 (drop (16 * i) ws)) [0..<length ws div 16]) of
           (h0, h1, h2, h3, h4) \<Rightarrow> [h0, h1, h2, h3, h4])"

definition hex32 :: "32 word \<Rightarrow> string" where
  "hex32 w = map (\<lambda>i. ''0123456789abcdef'' ! unat (drop_bit (4 * (7 - i)) w AND 15)) [0..<8]"

definition sha1_hex :: "string \<Rightarrow> string" where
  "sha1_hex s = concat (map hex32 (sha1 (map (\<lambda>c. of_nat (of_char c)) s)))"

subsection \<open>Scripts\<close>

text \<open>\<^verbatim>\<open>redis.NewScript(keyCount, src)\<close> keeps the key count, the text and the SHA-1 of the
  text. \<^verbatim>\<open>Script.args\<close> puts the text or the hash first, then the key count when it is not
  negative, then the keys and arguments. \<^verbatim>\<open>Script.Do\<close> sends \<^verbatim>\<open>EVALSHA\<close> with the hash;
  when the error of that command is an error reply that starts with \<^verbatim>\<open>NOSCRIPT \<close>, it
  sends \<^verbatim>\<open>EVAL\<close> with the text; it returns the reply and error of the last command sent.\<close>

record Script =
  keyCount :: int
  src :: string
  hash :: string

definition NewScript :: "int \<Rightarrow> string \<Rightarrow> Script" where
  "NewScript n s = \<lparr>keyCount = n, src = s, hash = sha1_hex s\<rparr>"

definition Script_args :: "Script \<Rightarrow> string \<Rightarrow> arg list \<Rightarrow> arg list" where
  "Script_args s spec keysAndArgs =
     (if keyCount s < 0 then Str spec # keysAndArgs
      else Str spec # GoInt (keyCount s) # keysAndArgs)"

fun NOSCRIPT :: "error option \<Rightarrow> bool" where
  "NOSCRIPT (Some (Error e)) = prefix ''NOSCRIPT '' e"
| "NOSCRIPT _ = False"

definition Script_Do :: "'w Do \<Rightarrow> Script \<Rightarrow> Conn \<Rightarrow> 'w \<Rightarrow> arg list \<Rightarrow> (reply \<times> error option) \<times> 'w" where
  "Script_Do Do s c w keysAndArgs =
     (let ((v, err), w1) = Do c w ''EVALSHA'' (Script_args s (hash s) keysAndArgs)
      in if NOSCRIPT err then Do c w1 ''EVAL'' (Script_args s (src s) keysAndArgs)
         else ((v, err), w1))"

section \<open>Durations\<close>

text \<open>\<^verbatim>\<open>time.Duration\<close> counts nanoseconds in an int64. The constants below are Go constant
  expressions, which are computed exactly and rejected by the compiler when they do not fit;
  \<open>fits_int64\<close> states the fit. Go's \<^verbatim>\<open>/\<close> truncates (\<open>sdiv\<close>).\<close>

definition Nanosecond :: int where "Nanosecond = 1"
definition Microsecond :: int where "Microsecond = 1000 * Nanosecond"
definition Millisecond :: int where "Millisecond = 1000 * Microsecond"
definition Second :: int where "Second = 1000 * Millisecond"
definition Minute :: int where "Minute = 60 * Second"

definition fits_int64 :: "int \<Rightarrow> bool" where
  "fits_int64 x \<longleftrightarrow> - (2 ^ 63) \<le> x \<and> x < 2 ^ 63"

text \<open>\<^verbatim>\<open>const lockTimeout = 10 * time.Minute\<close> (redislock.go) and
  \<^verbatim>\<open>const lockTimeout = 60 * time.Second\<close> (the second version of the file).\<close>

definition lockTimeout :: int where "lockTimeout = 10 * Minute"

definition lockTimeout_v2 :: int where "lockTimeout_v2 = 60 * Second"

section \<open>The package\<close>

text \<open>The text of the unlock script, as the raw string literal of the source has it: each
  line starts with a line feed and tabs.\<close>

definition unlockScript_src :: string where
  \<open>unlockScript_src =
     [CHR 0x0A, CHR 0x09] @ ''if redis.call("get", KEYS[1]) == ARGV[1]'' @
     [CHR 0x0A, CHR 0x09] @ ''then'' @
     [CHR 0x0A, CHR 0x09, CHR 0x09] @ ''return redis.call("del", KEYS[1])'' @
     [CHR 0x0A, CHR 0x09] @ ''else'' @
     [CHR 0x0A, CHR 0x09, CHR 0x09] @ ''return 0'' @
     [CHR 0x0A, CHR 0x09] @ ''end'' @
     [CHR 0x0A]\<close>

definition unlockScript :: Script where
  "unlockScript = NewScript 1 unlockScript_src"

subsection \<open>Lock\<close>

record Lock =
  resource :: string
  token :: string
  conn :: Conn

definition key :: "Lock \<Rightarrow> string" where
  "key lock = ''redislock:'' @ resource lock"

text \<open>\<^verbatim>\<open>tryLock\<close> of redislock.go. The named results start as \<open>(False, nil)\<close>; \<open>err\<close> is
  the error of \<^verbatim>\<open>redis.String\<close>.\<close>

definition tryLock :: "'w Do \<Rightarrow> Lock \<Rightarrow> 'w \<Rightarrow> (bool \<times> error option) \<times> 'w" where
  "tryLock Do lock w =
     (let (r, w') = Do (conn lock) w ''SET''
                      [Str (key lock), Str (token lock), Str ''EX'',
                       Int64 (lockTimeout sdiv Second), Str ''NX''];
          (status, err) = redis_String r
      in if err = Some ErrNil then ((False, None), w')
         else if err = None \<and> status = ''OK'' then ((True, err), w')
         else ((False, err), w'))"

text \<open>\<^verbatim>\<open>tryLock\<close> of the second version of the file, with its early returns.\<close>

definition tryLock_v2 :: "'w Do \<Rightarrow> Lock \<Rightarrow> 'w \<Rightarrow> (bool \<times> error option) \<times> 'w" where
  "tryLock_v2 Do lock w =
     (let (r, w') = Do (conn lock) w ''SET''
                      [Str (key lock), Str (token lock), Str ''EX'',
                       Int64 (lockTimeout_v2 sdiv Second), Str ''NX''];
          (status, err) = redis_String r
      in if err = Some ErrNil then ((False, None), w')
         else if err \<noteq> None then ((False, err), w')
         else ((status = ''OK'', None), w'))"

definition Unlock :: "'w Do \<Rightarrow> Lock \<Rightarrow> 'w \<Rightarrow> error option \<times> 'w" where
  "Unlock Do lock w =
     (let ((_, err), w') = Script_Do Do unlockScript (conn lock) w [Str (key lock), Str (token lock)]
      in (err, w'))"

text \<open>\<^verbatim>\<open>TryLock(conn, resource)\<close>. The string \<^verbatim>\<open>uuid.New()\<close> returns in the call is the
  parameter \<open>uuid_New\<close>. A nil \<^verbatim>\<open>*Lock\<close> is \<open>None\<close>.\<close>

definition TryLock :: "'w Do \<Rightarrow> string \<Rightarrow> Conn \<Rightarrow> string \<Rightarrow> 'w \<Rightarrow> (Lock option \<times> bool \<times> error option) \<times> 'w" where
  "TryLock Do uuid_New c r w =
     (let lock = \<lparr>resource = r, token = uuid_New, conn = c\<rparr>;
          ((ok, err), w') = tryLock Do lock w
      in if \<not> ok \<or> err \<noteq> None then ((None, ok, err), w') else ((Some lock, ok, err), w'))"

definition TryLock_v2 :: "'w Do \<Rightarrow> string \<Rightarrow> Conn \<Rightarrow> string \<Rightarrow> 'w \<Rightarrow> (Lock option \<times> bool \<times> error option) \<times> 'w" where
  "TryLock_v2 Do uuid_New c r w =
     (let lock = \<lparr>resource = r, token = uuid_New, conn = c\<rparr>;
          ((ok, err), w') = tryLock_v2 Do lock w
      in if \<not> ok \<or> err \<noteq> None then ((None, ok, err), w') else ((Some lock, ok, err), w'))"

subsection \<open>Recording what is sent\<close>

text \<open>A connection that also records every command it is given, in order. With it a
  theorem can speak of what a function sends, whatever the store answers.\<close>

definition logged :: "'w Do \<Rightarrow> ((string \<times> arg list) list \<times> 'w) Do" where
  "logged Do c lw cmd args =
     (let (r, w') = Do c (snd lw) cmd args in (r, (fst lw @ [(cmd, args)], w')))"

subsection \<open>Calls as sequences of commands\<close>

text \<open>
  When calls run at the same time, what the store sees is their commands, one at a time, in
  some order. A call is therefore also written as the commands it sends: it is done with a
  result, or it sends a command and goes on with the reply. \<open>run\<close> performs a call on a
  connection, one command after the other. Each function above is shown below to be \<open>run\<close>
  of its call, for every connection.
\<close>

datatype 'a call = Done 'a | Send string "arg list" "reply \<times> error option \<Rightarrow> 'a call"

fun result :: "'a call \<Rightarrow> 'a option" where
  "result (Done x) = Some x"
| "result (Send cmd args k) = None"

primrec run :: "'w Do \<Rightarrow> Conn \<Rightarrow> 'a call \<Rightarrow> 'w \<Rightarrow> 'a \<times> 'w" where
  "run Do c (Done x) = (\<lambda>w. (x, w))"
| "run Do c (Send cmd args k) =
     (\<lambda>w. let (r, w') = Do c w cmd args in run Do c (k r) w')"

definition tryLock_call :: "Lock \<Rightarrow> (bool \<times> error option) call" where
  "tryLock_call lock =
     Send ''SET'' [Str (key lock), Str (token lock), Str ''EX'',
                   Int64 (lockTimeout sdiv Second), Str ''NX'']
       (\<lambda>r. let (status, err) = redis_String r
            in if err = Some ErrNil then Done (False, None)
               else if err = None \<and> status = ''OK'' then Done (True, err)
               else Done (False, err))"

definition TryLock_call :: "string \<Rightarrow> Conn \<Rightarrow> string \<Rightarrow> (Lock option \<times> bool \<times> error option) call" where
  "TryLock_call uuid_New c r =
     (let lock = \<lparr>resource = r, token = uuid_New, conn = c\<rparr>
      in map_call (\<lambda>(ok, err). if \<not> ok \<or> err \<noteq> None then (None, ok, err)
                               else (Some lock, ok, err))
           (tryLock_call lock))"

definition Script_Do_call :: "Script \<Rightarrow> arg list \<Rightarrow> (reply \<times> error option) call" where
  "Script_Do_call s keysAndArgs =
     Send ''EVALSHA'' (Script_args s (hash s) keysAndArgs)
       (\<lambda>(v, err). if NOSCRIPT err
                   then Send ''EVAL'' (Script_args s (src s) keysAndArgs) Done
                   else Done (v, err))"

definition Unlock_call :: "Lock \<Rightarrow> error option call" where
  "Unlock_call lock =
     map_call snd (Script_Do_call unlockScript [Str (key lock), Str (token lock)])"

subsection \<open>Locks behind pointers\<close>

text \<open>
  The methods have the receiver \<^verbatim>\<open>*Lock\<close> and \<^verbatim>\<open>TryLock\<close> returns a \<^verbatim>\<open>*Lock\<close>. The heap is the
  list of the Lock objects allocated so far, a pointer is nil or an index into it, and a
  method called through a pointer takes the heap and returns it, so that a method that
  assigned a field would return another heap. A nil receiver panics at the first field it
  reads.
\<close>

type_synonym heap = "Lock list"

datatype panic = NilDereference

fun key_ptr :: "nat option \<Rightarrow> heap \<Rightarrow> (panic + string) \<times> heap" where
  "key_ptr None h = (Inl NilDereference, h)"
| "key_ptr (Some a) h = (if a < length h then (Inr (key (h ! a)), h) else (Inl NilDereference, h))"

fun Unlock_ptr :: "'w Do \<Rightarrow> nat option \<Rightarrow> heap \<times> 'w \<Rightarrow> (panic + error option) \<times> heap \<times> 'w" where
  "Unlock_ptr Do None (h, w) = (Inl NilDereference, h, w)"
| "Unlock_ptr Do (Some a) (h, w) =
     (if a < length h then let (err, w') = Unlock Do (h ! a) w in (Inr err, h, w')
      else (Inl NilDereference, h, w))"

definition TryLock_ptr :: "'w Do \<Rightarrow> string \<Rightarrow> Conn \<Rightarrow> string \<Rightarrow> heap \<times> 'w
    \<Rightarrow> (nat option \<times> bool \<times> error option) \<times> heap \<times> 'w" where
  "TryLock_ptr Do uuid_New c r hw =
     (let h' = fst hw @ [\<lparr>resource = r, token = uuid_New, conn = c\<rparr>];
          lock = length (fst hw);
          ((ok, err), w') = tryLock Do (h' ! lock) (snd hw)
      in if \<not> ok \<or> err \<noteq> None then ((None, ok, err), h', w')
         else ((Some lock, ok, err), h', w'))"

text \<open>\<open>n\<close> calls of \<^verbatim>\<open>lock.Unlock()\<close> in a row through one pointer; what they return, in
  order, and the final heap and state.\<close>

fun Unlock_times :: "'w Do \<Rightarrow> nat \<Rightarrow> nat option \<Rightarrow> heap \<times> 'w \<Rightarrow> (panic + error option) list \<times> heap \<times> 'w" where
  "Unlock_times Do 0 p hw = ([], hw)"
| "Unlock_times Do (Suc n) p hw =
     (let (res, hw1) = Unlock_ptr Do p hw; (ress, hw2) = Unlock_times Do n p hw1
      in (res # ress, hw2))"

section \<open>A Redis server behind the connections\<close>

text \<open>
  The contract of the store the package relies on: the server runs one command at a time.
  \<^verbatim>\<open>SET key value EX seconds NX\<close> stores the value with its expiry when the key is absent and
  answers \<^verbatim>\<open>OK\<close>, and answers nil and changes nothing when the key exists. \<^verbatim>\<open>EVAL\<close> runs the
  script of a text on the keyspace, with the first \<open>numkeys\<close> arguments as \<^verbatim>\<open>KEYS\<close> and the
  rest as \<^verbatim>\<open>ARGV\<close>, and remembers the text under its SHA-1. \<^verbatim>\<open>EVALSHA\<close> runs the script
  remembered under a hash, and answers with a \<^verbatim>\<open>NOSCRIPT\<close> error and changes nothing when
  there is none. The passing of time is not a command; the expiry of a key appears as an
  event of its own further below.
\<close>

text \<open>A key holds a string value and the expiry in seconds it was stored with.\<close>

type_synonym keyspace = "string \<rightharpoonup> string \<times> int"

text \<open>What a script computes: from the Lua tables \<^verbatim>\<open>KEYS\<close> and \<^verbatim>\<open>ARGV\<close> and the keyspace,
  a reply and the keyspace after it.\<close>

type_synonym lua = "string list \<Rightarrow> string list \<Rightarrow> keyspace \<Rightarrow> reply \<times> keyspace"

text \<open>\<^verbatim>\<open>redis.call("get", k)\<close> is the value at the key, or false (\<open>None\<close>) when the key is
  absent; \<^verbatim>\<open>redis.call("del", k)\<close> removes the key and returns how many keys it removed.\<close>

definition redis_get :: "keyspace \<Rightarrow> string \<Rightarrow> string option" where
  "redis_get ks k = map_option fst (ks k)"

definition redis_del :: "keyspace \<Rightarrow> string \<Rightarrow> reply \<times> keyspace" where
  "redis_del ks k = (if ks k = None then (RInt 0, ks) else (RInt 1, ks(k := None)))"

text \<open>
  What the text of the unlock script computes:

  \<^verbatim>\<open>if redis.call("get", KEYS[1]) == ARGV[1] then return redis.call("del", KEYS[1]) else return 0 end\<close>

  With no key, \<^verbatim>\<open>redis.call\<close> is given nil and the script fails. With a key and no argument,
  the value or false is compared with nil, which is never equal.\<close>

fun unlockScript_lua :: lua where
  "unlockScript_lua [] ARGV ks = (RError ''ERR Error running script'', ks)"
| "unlockScript_lua (k # _) [] ks = (RInt 0, ks)"
| "unlockScript_lua (k # _) (a # _) ks =
     (if redis_get ks k = Some a then redis_del ks k else (RInt 0, ks))"

text \<open>The server's Lua interpreter, as far as the package uses it: the text of the unlock
  script has the meaning above, and the model gives no other text a meaning.\<close>

definition lua_load :: "string \<Rightarrow> lua option" where
  "lua_load text = (if text = unlockScript_src then Some unlockScript_lua else None)"

text \<open>A connection can fail in two ways: the command never reaches the server, or the
  server runs it and the reply is lost. In both the client returns the transport's error.\<close>

datatype fault = Unreachable error | ReplyLost error

record server =
  db :: keyspace
  link :: "Conn \<rightharpoonup> fault"
  scripts :: "string \<rightharpoonup> string"

definition redis_SET_EX_NX :: "keyspace \<Rightarrow> string \<Rightarrow> string \<Rightarrow> int \<Rightarrow> reply \<times> keyspace" where
  "redis_SET_EX_NX ks k v n =
     (if n \<le> 0 then (RError ''ERR invalid expire time in set'', ks)
      else if ks k = None then (RStatus ''OK'', ks(k \<mapsto> (v, n)))
      else (RNil, ks))"

fun strs :: "arg list \<Rightarrow> string list option" where
  "strs [] = Some []"
| "strs (Str s # as) = map_option ((#) s) (strs as)"
| "strs (_ # as) = None"

definition redis_script :: "string \<Rightarrow> int \<Rightarrow> arg list \<Rightarrow> keyspace \<Rightarrow> reply \<times> keyspace" where
  "redis_script text n rest ks =
     (case lua_load text of
        None \<Rightarrow> (RError ''ERR Error compiling script'', ks)
      | Some f \<Rightarrow>
          if n < 0 \<or> int (length rest) < n then (RError ''ERR Number of keys'', ks)
          else case strs rest of
                 None \<Rightarrow> (RError ''ERR syntax error'', ks)
               | Some ss \<Rightarrow> f (take (nat n) ss) (drop (nat n) ss) ks)"

fun redis_exec :: "string \<Rightarrow> arg list \<Rightarrow> server \<Rightarrow> reply \<times> server" where
  "redis_exec cmd [Str k, Str v, Str ex, Int64 n, Str nx] w =
     (if cmd = ''SET'' \<and> ex = ''EX'' \<and> nx = ''NX''
      then (fst (redis_SET_EX_NX (db w) k v n), w\<lparr>db := snd (redis_SET_EX_NX (db w) k v n)\<rparr>)
      else (RError ''ERR syntax error'', w))"
| "redis_exec cmd (Str x # GoInt n # rest) w =
     (if cmd = ''EVALSHA'' then
        (case scripts w x of
           None \<Rightarrow> (RError ''NOSCRIPT No matching script. Please use EVAL.'', w)
         | Some text \<Rightarrow>
             (fst (redis_script text n rest (db w)), w\<lparr>db := snd (redis_script text n rest (db w))\<rparr>))
      else if cmd = ''EVAL'' then
        (fst (redis_script x n rest (db w)),
         w\<lparr>db := snd (redis_script x n rest (db w)),
            scripts := (if lua_load x = None then scripts w else (scripts w)(sha1_hex x \<mapsto> x))\<rparr>)
      else (RError ''ERR syntax error'', w))"
| "redis_exec cmd args w = (RError ''ERR unknown command'', w)"

text \<open>What the client's \<^verbatim>\<open>Do\<close> returns for a reply it has read: an error reply is also the
  error.\<close>

fun client_result :: "reply \<Rightarrow> reply \<times> error option" where
  "client_result (RError m) = (RError m, Some (Error m))"
| "client_result r = (r, None)"

definition redis_Do :: "server Do" where
  "redis_Do c w cmd args =
     (case link w c of
        Some (Unreachable e) \<Rightarrow> ((RNil, Some e), w)
      | Some (ReplyLost e) \<Rightarrow> ((RNil, Some e), snd (redis_exec cmd args w))
      | None \<Rightarrow> (client_result (fst (redis_exec cmd args w)), snd (redis_exec cmd args w)))"

text \<open>Under the hash of the unlock script the server remembers nothing or that script.\<close>

definition script_cache_ok :: "server \<Rightarrow> bool" where
  "script_cache_ok w \<longleftrightarrow>
     scripts w (hash unlockScript) = None \<or> scripts w (hash unlockScript) = Some (src unlockScript)"

text \<open>A Lock holds its resource in a server state when the key's value is its token.\<close>

definition holds :: "server \<Rightarrow> Lock \<Rightarrow> bool" where
  "holds w lock \<longleftrightarrow> redis_get (db w) (key lock) = Some (token lock)"

section \<open>Clients running at the same time\<close>

text \<open>
  Clients ask for acquisitions and releases; each request is a call in progress, and the
  server runs one command of one call at a time, in any order. A key can expire at any
  moment. Every call of \<^verbatim>\<open>TryLock\<close> mints a token, which is taken to be new (this is what
  \<^verbatim>\<open>uuid.New\<close> is for), and a client releases only a Lock that \<^verbatim>\<open>TryLock\<close> has returned.

  Beside the server and the calls in progress, the state keeps the record the specification
  speaks of: the Locks returned so far (\<open>issued\<close>) and, following its state machine of a
  Lock, those that are held: a Lock is held from the return of its successful acquisition
  until its release returns or its key expires.
\<close>

datatype op = Acquire string Conn string | Release Lock

datatype outcome = Acquired "Lock option \<times> bool \<times> error option" | Released "error option"

fun op_conn :: "op \<Rightarrow> Conn" where
  "op_conn (Acquire t c r) = c"
| "op_conn (Release lock) = conn lock"

fun op_call :: "op \<Rightarrow> outcome call" where
  "op_call (Acquire t c r) = map_call Acquired (TryLock_call t c r)"
| "op_call (Release lock) = map_call Released (Unlock_call lock)"

record system =
  store :: server
  tasks :: "(op \<times> outcome call) list"
  minted :: "string list"
  issued :: "Lock list"
  held :: "Lock list"

datatype event = Start op | Step nat | Expire string

text \<open>The record is updated when a call returns.\<close>

fun returns :: "op \<Rightarrow> outcome \<Rightarrow> system \<Rightarrow> system" where
  "returns (Acquire t c r) (Acquired (Some lock, ok, err)) \<sigma> =
     \<sigma>\<lparr>issued := lock # issued \<sigma>, held := lock # held \<sigma>\<rparr>"
| "returns (Release lock) (Released err) \<sigma> = \<sigma>\<lparr>held := removeAll lock (held \<sigma>)\<rparr>"
| "returns _ _ \<sigma> = \<sigma>"

fun allowed :: "system \<Rightarrow> event \<Rightarrow> bool" where
  "allowed \<sigma> (Start (Acquire t c r)) = (t \<notin> set (minted \<sigma>))"
| "allowed \<sigma> (Start (Release lock)) = (lock \<in> set (issued \<sigma>))"
| "allowed \<sigma> (Step i) = (i < length (tasks \<sigma>) \<and> result (snd (tasks \<sigma> ! i)) = None)"
| "allowed \<sigma> (Expire k) = True"

fun step :: "event \<Rightarrow> system \<Rightarrow> system" where
  "step (Start (Acquire t c r)) \<sigma> =
     \<sigma>\<lparr>tasks := tasks \<sigma> @ [(Acquire t c r, op_call (Acquire t c r))], minted := t # minted \<sigma>\<rparr>"
| "step (Start (Release lock)) \<sigma> =
     \<sigma>\<lparr>tasks := tasks \<sigma> @ [(Release lock, op_call (Release lock))]\<rparr>"
| "step (Expire k) \<sigma> =
     \<sigma>\<lparr>store := (store \<sigma>)\<lparr>db := (db (store \<sigma>))(k := None)\<rparr>,
       held := filter (\<lambda>lock. key lock \<noteq> k) (held \<sigma>)\<rparr>"
| "step (Step i) \<sigma> =
     (case tasks \<sigma> ! i of
        (opn, Done out) \<Rightarrow> \<sigma>
      | (opn, Send cmd args k) \<Rightarrow>
          (let (r, s') = redis_Do (op_conn opn) (store \<sigma>) cmd args;
               \<sigma>' = \<sigma>\<lparr>store := s', tasks := (tasks \<sigma>)[i := (opn, k r)]\<rparr>
           in case k r of Done out \<Rightarrow> returns opn out \<sigma>' | Send cmd' args' k' \<Rightarrow> \<sigma>'))"

fun exec :: "event list \<Rightarrow> system \<Rightarrow> system option" where
  "exec [] \<sigma> = Some \<sigma>"
| "exec (e # es) \<sigma> = (if allowed \<sigma> e then exec es (step e \<sigma>) else None)"

text \<open>The system starts on a server with no call in progress and nothing recorded.\<close>

definition start :: "server \<Rightarrow> system" where
  "start s = \<lparr>store = s, tasks = [], minted = [], issued = [], held = []\<rparr>"

subsection \<open>What stays true while the system runs\<close>

text \<open>The second half of a release, after the server did not know the hash.\<close>

definition Unlock_retry :: "Lock \<Rightarrow> outcome call" where
  "Unlock_retry lock =
     Send ''EVAL'' [Str (src unlockScript), GoInt 1, Str (key lock), Str (token lock)]
       (\<lambda>r. Done (Released (snd r)))"

text \<open>The server and the record agree: connections work, the script cache is sound, the
  Locks returned have different tokens, and a returned Lock is held exactly when the value
  at its key is its token.\<close>

definition record_ok :: "server \<Rightarrow> Lock list \<Rightarrow> Lock list \<Rightarrow> bool" where
  "record_ok s iss hld \<longleftrightarrow>
     link s = Map.empty \<and> script_cache_ok s \<and> distinct (map token iss) \<and> set hld \<subseteq> set iss
     \<and> (\<forall>l \<in> set iss. l \<in> set hld \<longleftrightarrow> holds s l)"

text \<open>A call in progress is at its start, or a release at its second half, or done; the
  token of an acquisition in progress was minted and no returned Lock has it; only a
  returned Lock is being released.\<close>

fun task_ok :: "string list \<Rightarrow> Lock list \<Rightarrow> op \<times> outcome call \<Rightarrow> bool" where
  "task_ok mi iss (Acquire t c r, p) =
     (t \<in> set mi \<and> (result p \<noteq> None \<or> (p = op_call (Acquire t c r) \<and> t \<notin> token ` set iss)))"
| "task_ok mi iss (Release lock, p) =
     (lock \<in> set iss \<and> (result p \<noteq> None \<or> p = op_call (Release lock) \<or> p = Unlock_retry lock))"

fun mints :: "op \<Rightarrow> string option" where
  "mints (Acquire t c r) = Some t"
| "mints (Release lock) = None"

definition tasks_ok :: "(op \<times> outcome call) list \<Rightarrow> string list \<Rightarrow> Lock list \<Rightarrow> bool" where
  "tasks_ok ts mi iss \<longleftrightarrow>
     (\<forall>i < length ts. task_ok mi iss (ts ! i))
     \<and> (\<forall>i < length ts. \<forall>j < length ts. i \<noteq> j \<longrightarrow> mints (fst (ts ! i)) \<noteq> None
           \<longrightarrow> mints (fst (ts ! i)) \<noteq> mints (fst (ts ! j)))
     \<and> token ` set iss \<subseteq> set mi"

definition system_ok :: "system \<Rightarrow> bool" where
  "system_ok \<sigma> \<longleftrightarrow>
     record_ok (store \<sigma>) (issued \<sigma>) (held \<sigma>) \<and> tasks_ok (tasks \<sigma>) (minted \<sigma>) (issued \<sigma>)"

section \<open>Basic facts\<close>

lemma run_map_call: "run Do c (map_call f p) w = (let (x, w') = run Do c p w in (f x, w'))"
  by (induction p arbitrary: w) (auto simp add: Let_def split: prod.splits)

lemma run_tryLock_call: "run Do (conn lock) (tryLock_call lock) w = tryLock Do lock w"
  by (simp add: tryLock_call_def tryLock_def Let_def split: prod.splits)

lemma run_TryLock_call: "run Do c (TryLock_call t c r) w = TryLock Do t c r w"
  using run_tryLock_call [of Do "\<lparr>resource = r, token = t, conn = c\<rparr>" w]
  by (simp add: TryLock_call_def TryLock_def run_map_call Let_def split: prod.splits)

lemma run_Script_Do_call: "run Do c (Script_Do_call s keysAndArgs) w = Script_Do Do s c w keysAndArgs"
  by (simp add: Script_Do_call_def Script_Do_def Let_def split: prod.splits)

lemma run_Unlock_call: "run Do (conn lock) (Unlock_call lock) w = Unlock Do lock w"
  by (simp add: Unlock_call_def Unlock_def run_map_call run_Script_Do_call Let_def split: prod.splits)

lemma lockTimeout_seconds: "lockTimeout sdiv Second = 600"
  by (simp add: lockTimeout_def Minute_def Second_def Millisecond_def Microsecond_def
      Nanosecond_def signed_divide_int_def)

lemma lockTimeout_v2_seconds: "lockTimeout_v2 sdiv Second = 60"
  by (simp add: lockTimeout_v2_def Second_def Millisecond_def Microsecond_def
      Nanosecond_def signed_divide_int_def)

lemma TryLock_unfold:
  "TryLock Do t c r w =
     (let (rep, w') = Do c w ''SET'' [Str (''redislock:'' @ r), Str t, Str ''EX'', Int64 600, Str ''NX''];
          (status, err) = redis_String rep
      in if err = Some ErrNil then ((None, False, None), w')
         else if err = None \<and> status = ''OK''
           then ((Some \<lparr>resource = r, token = t, conn = c\<rparr>, True, None), w')
         else ((None, False, err), w'))"
  by (simp add: TryLock_def tryLock_def key_def lockTimeout_seconds Let_def split: prod.splits)

lemma TryLock_v2_unfold:
  "TryLock_v2 Do t c r w =
     (let (rep, w') = Do c w ''SET'' [Str (''redislock:'' @ r), Str t, Str ''EX'', Int64 60, Str ''NX''];
          (status, err) = redis_String rep
      in if err = Some ErrNil then ((None, False, None), w')
         else if err = None \<and> status = ''OK''
           then ((Some \<lparr>resource = r, token = t, conn = c\<rparr>, True, None), w')
         else ((None, False, err), w'))"
  by (auto simp add: TryLock_v2_def tryLock_v2_def key_def lockTimeout_v2_seconds Let_def split: prod.splits)

lemma redis_exec_SET:
  "redis_exec ''SET'' [Str k, Str v, Str ''EX'', Int64 600, Str ''NX''] w =
     (if db w k = None then (RStatus ''OK'', w\<lparr>db := (db w)(k \<mapsto> (v, 600))\<rparr>) else (RNil, w))"
  by (simp add: redis_SET_EX_NX_def)

lemma redis_exec_SET_v2:
  "redis_exec ''SET'' [Str k, Str v, Str ''EX'', Int64 60, Str ''NX''] w =
     (if db w k = None then (RStatus ''OK'', w\<lparr>db := (db w)(k \<mapsto> (v, 60))\<rparr>) else (RNil, w))"
  by (simp add: redis_SET_EX_NX_def)

lemma TryLock_redis:
  "TryLock redis_Do t c r s =
     (case link s c of
        None \<Rightarrow>
          if db s (''redislock:'' @ r) = None
          then ((Some \<lparr>resource = r, token = t, conn = c\<rparr>, True, None),
                s\<lparr>db := (db s)(''redislock:'' @ r \<mapsto> (t, 600))\<rparr>)
          else ((None, False, None), s)
      | Some (Unreachable e) \<Rightarrow> ((None, False, if e = ErrNil then None else Some e), s)
      | Some (ReplyLost e) \<Rightarrow>
          ((None, False, if e = ErrNil then None else Some e),
           if db s (''redislock:'' @ r) = None
           then s\<lparr>db := (db s)(''redislock:'' @ r \<mapsto> (t, 600))\<rparr> else s))"
  unfolding TryLock_unfold redis_Do_def redis_exec_SET
  by (auto split: option.splits fault.splits)

lemma tryLock_logged:
  "snd (tryLock (logged Do) lock (log, w)) =
     (log @ [(''SET'', [Str (key lock), Str (token lock), Str ''EX'', Int64 600, Str ''NX''])],
      snd (Do (conn lock) w ''SET'' [Str (key lock), Str (token lock), Str ''EX'', Int64 600, Str ''NX'']))"
  by (simp add: tryLock_def logged_def lockTimeout_seconds Let_def split: prod.splits)

lemma tryLock_v2_logged:
  "snd (tryLock_v2 (logged Do) lock (log, w)) =
     (log @ [(''SET'', [Str (key lock), Str (token lock), Str ''EX'', Int64 60, Str ''NX''])],
      snd (Do (conn lock) w ''SET'' [Str (key lock), Str (token lock), Str ''EX'', Int64 60, Str ''NX'']))"
  by (simp add: tryLock_v2_def logged_def lockTimeout_v2_seconds Let_def split: prod.splits)

lemma TryLock_logged:
  "snd (TryLock (logged Do) t c r (log, w)) =
     (log @ [(''SET'', [Str (''redislock:'' @ r), Str t, Str ''EX'', Int64 600, Str ''NX''])],
      snd (Do c w ''SET'' [Str (''redislock:'' @ r), Str t, Str ''EX'', Int64 600, Str ''NX'']))"
  by (simp add: TryLock_unfold logged_def Let_def split: prod.splits)

lemma TryLock_redis_Some:
  assumes "TryLock redis_Do t c r s = ((Some l, ok, err), s')"
  shows "ok \<and> err = None \<and> l = \<lparr>resource = r, token = t, conn = c\<rparr>
       \<and> db s (''redislock:'' @ r) = None
       \<and> s' = s\<lparr>db := (db s)(''redislock:'' @ r \<mapsto> (t, 600))\<rparr>"
  using assms by (auto simp add: TryLock_redis split: option.splits fault.splits if_splits)

lemma TryLock_redis_fst:
  "fst (TryLock redis_Do t c r s) =
     (case link s c of
        None \<Rightarrow>
          if db s (''redislock:'' @ r) = None
          then (Some \<lparr>resource = r, token = t, conn = c\<rparr>, True, None)
          else (None, False, None)
      | Some f \<Rightarrow>
          (None, False,
           if (case f of Unreachable e \<Rightarrow> e | ReplyLost e \<Rightarrow> e) = ErrNil then None
           else Some (case f of Unreachable e \<Rightarrow> e | ReplyLost e \<Rightarrow> e)))"
  by (simp add: TryLock_redis split: option.splits fault.splits)

lemma hash_unlockScript: "sha1_hex (src unlockScript) = hash unlockScript"
  and keyCount_unlockScript: "keyCount unlockScript = 1"
  by (simp_all add: unlockScript_def NewScript_def)

lemma Unlock_unfold:
  "Unlock Do lock w =
     (let ((v, err), w1) = Do (conn lock) w ''EVALSHA''
            [Str (hash unlockScript), GoInt 1, Str (key lock), Str (token lock)]
      in if NOSCRIPT err
         then (let ((v2, err2), w2) = Do (conn lock) w1 ''EVAL''
                 [Str (src unlockScript), GoInt 1, Str (key lock), Str (token lock)]
               in (err2, w2))
         else (err, w1))"
  by (simp add: Unlock_def Script_Do_def Script_args_def keyCount_unlockScript Let_def
      split: prod.splits)

lemma Unlock_logged:
  "snd (Unlock (logged Do) lock (log, w)) =
     (let ((v, err), w1) = Do (conn lock) w ''EVALSHA''
            [Str (hash unlockScript), GoInt 1, Str (key lock), Str (token lock)]
      in if NOSCRIPT err
         then (log @ [(''EVALSHA'', [Str (hash unlockScript), GoInt 1, Str (key lock), Str (token lock)]),
                      (''EVAL'', [Str (src unlockScript), GoInt 1, Str (key lock), Str (token lock)])],
               snd (Do (conn lock) w1 ''EVAL''
                      [Str (src unlockScript), GoInt 1, Str (key lock), Str (token lock)]))
         else (log @ [(''EVALSHA'', [Str (hash unlockScript), GoInt 1, Str (key lock), Str (token lock)])],
               w1))"
  by (simp add: Unlock_unfold logged_def Let_def split: prod.splits)

lemma lua_load_unlockScript: "lua_load (src unlockScript) = Some unlockScript_lua"
  by (simp add: lua_load_def unlockScript_def NewScript_def)

lemma unlockScript_lua_one:
  "unlockScript_lua [k] [a] ks =
     (if redis_get ks k = Some a then (RInt 1, ks(k := None)) else (RInt 0, ks))"
  by (cases "ks k") (auto simp add: redis_del_def redis_get_def)

lemma redis_script_unlock:
  "redis_script (src unlockScript) 1 [Str k, Str a] ks =
     (if redis_get ks k = Some a then (RInt 1, ks(k := None)) else (RInt 0, ks))"
  by (cases "ks k") (auto simp add: redis_script_def lua_load_unlockScript redis_del_def redis_get_def)

lemma redis_exec_EVAL_unlock:
  "redis_exec ''EVAL'' [Str (src unlockScript), GoInt 1, Str k, Str a] w =
     (if redis_get (db w) k = Some a
      then (RInt 1, w\<lparr>db := (db w)(k := None),
                       scripts := (scripts w)(hash unlockScript \<mapsto> src unlockScript)\<rparr>)
      else (RInt 0, w\<lparr>scripts := (scripts w)(hash unlockScript \<mapsto> src unlockScript)\<rparr>))"
  by (simp add: redis_script_unlock lua_load_unlockScript hash_unlockScript)

lemma redis_exec_EVALSHA_unknown:
  "scripts w x = None \<Longrightarrow>
   redis_exec ''EVALSHA'' [Str x, GoInt n, Str k, Str a] w =
     (RError ''NOSCRIPT No matching script. Please use EVAL.'', w)"
  by simp

lemma redis_exec_EVALSHA_unlock:
  "scripts w x = Some (src unlockScript) \<Longrightarrow>
   redis_exec ''EVALSHA'' [Str x, GoInt 1, Str k, Str a] w =
     (if redis_get (db w) k = Some a then (RInt 1, w\<lparr>db := (db w)(k := None)\<rparr>) else (RInt 0, w))"
  by (simp add: redis_script_unlock)

lemma NOSCRIPT_reply [simp]:
  "NOSCRIPT (Some (Error ''NOSCRIPT No matching script. Please use EVAL.''))"
  by simp

lemma Unlock_redis:
  assumes "link s (conn lock) = None" and "script_cache_ok s"
  shows "Unlock redis_Do lock s =
     (None, s\<lparr>db := (if holds s lock then (db s)(key lock := None) else db s),
              scripts := (scripts s)(hash unlockScript \<mapsto> src unlockScript)\<rparr>)"
proof (cases "scripts s (hash unlockScript)")
  case None
  then show ?thesis
    using assms(1)
    by (simp add: Unlock_unfold redis_Do_def redis_exec_EVALSHA_unknown redis_exec_EVAL_unlock
        holds_def del: redis_exec.simps)
next
  case (Some x)
  then have c: "scripts s (hash unlockScript) = Some (src unlockScript)"
    using assms(2) by (simp add: script_cache_ok_def)
  then have "(scripts s)(hash unlockScript \<mapsto> src unlockScript) = scripts s"
    by (simp add: map_upd_triv)
  then show ?thesis
    using assms(1) c
    by (simp add: Unlock_unfold redis_Do_def redis_exec_EVALSHA_unlock holds_def
        del: redis_exec.simps)
qed

lemma redis_exec_link: "link (snd (redis_exec cmd args w)) = link w"
  by (cases "(cmd, args, w)" rule: redis_exec.cases) (auto split: option.splits)

lemma redis_Do_link: "link (snd (redis_Do c w cmd args)) = link w"
  by (simp add: redis_Do_def redis_exec_link split: option.splits fault.splits)

lemma redis_script_db:
  "snd (redis_script x 1 [Str k, Str a] ks) = ks
   \<or> (redis_get ks k = Some a \<and> snd (redis_script x 1 [Str k, Str a] ks) = ks(k := None))"
  by (cases "ks k") (auto simp add: redis_script_def lua_load_def redis_del_def redis_get_def)

lemma redis_exec_script_db:
  "db (snd (redis_exec cmd [Str x, GoInt 1, Str k, Str a] w)) = db w
   \<or> (redis_get (db w) k = Some a
      \<and> db (snd (redis_exec cmd [Str x, GoInt 1, Str k, Str a] w)) = (db w)(k := None))"
proof (cases "scripts w x")
  case None
  then show ?thesis using redis_script_db [of x k a "db w"] by auto
next
  case (Some y)
  then show ?thesis
    using redis_script_db [of x k a "db w"] redis_script_db [of y k a "db w"] by auto
qed

lemma redis_Do_script_db:
  "db (snd (redis_Do c w cmd [Str x, GoInt 1, Str k, Str a])) = db w
   \<or> (redis_get (db w) k = Some a
      \<and> db (snd (redis_Do c w cmd [Str x, GoInt 1, Str k, Str a])) = (db w)(k := None))"
  using redis_exec_script_db [of cmd x k a w]
  by (auto simp add: redis_Do_def simp del: redis_exec.simps split: option.splits fault.splits)

lemma Unlock_redis_db:
  "db (snd (Unlock redis_Do lock s)) = db s
   \<or> (holds s lock \<and> db (snd (Unlock redis_Do lock s)) = (db s)(key lock := None))"
proof -
  let ?sha = "[Str (hash unlockScript), GoInt 1, Str (key lock), Str (token lock)]"
  let ?txt = "[Str (src unlockScript), GoInt 1, Str (key lock), Str (token lock)]"
  obtain v err s1 where a: "redis_Do (conn lock) s ''EVALSHA'' ?sha = ((v, err), s1)"
    by (metis prod.collapse)
  obtain v2 err2 s2 where b: "redis_Do (conn lock) s1 ''EVAL'' ?txt = ((v2, err2), s2)"
    by (metis prod.collapse)
  have 1: "db s1 = db s \<or> (holds s lock \<and> db s1 = (db s)(key lock := None))"
    using redis_Do_script_db [of "conn lock" s "''EVALSHA''" "hash unlockScript" "key lock" "token lock"] a
    by (simp add: holds_def)
  have 2: "db s2 = db s1 \<or> (redis_get (db s1) (key lock) = Some (token lock) \<and> db s2 = (db s1)(key lock := None))"
    using redis_Do_script_db [of "conn lock" s1 "''EVAL''" "src unlockScript" "key lock" "token lock"] b
    by simp
  have 3: "db s2 = db s \<or> (holds s lock \<and> db s2 = (db s)(key lock := None))"
    using 1 2 by (auto simp add: redis_get_def holds_def)
  show ?thesis
    using a b 1 3 by (simp add: Unlock_unfold)
qed

lemma Unlock_redis_link: "link (snd (Unlock redis_Do lock s)) = link s"
proof -
  let ?sha = "[Str (hash unlockScript), GoInt 1, Str (key lock), Str (token lock)]"
  let ?txt = "[Str (src unlockScript), GoInt 1, Str (key lock), Str (token lock)]"
  obtain v err s1 where a: "redis_Do (conn lock) s ''EVALSHA'' ?sha = ((v, err), s1)"
    by (metis prod.collapse)
  obtain v2 err2 s2 where b: "redis_Do (conn lock) s1 ''EVAL'' ?txt = ((v2, err2), s2)"
    by (metis prod.collapse)
  have "link s1 = link s" using redis_Do_link [of "conn lock" s "''EVALSHA''" ?sha] a by simp
  moreover have "link s2 = link s1" using redis_Do_link [of "conn lock" s1 "''EVAL''" ?txt] b by simp
  ultimately show ?thesis using a b by (simp add: Unlock_unfold)
qed

lemma Unlock_redis_error:
  assumes "script_cache_ok s"
  shows "fst (Unlock redis_Do lock s) \<noteq> None \<longleftrightarrow> link s (conn lock) \<noteq> None"
proof (cases "link s (conn lock)")
  case None
  then show ?thesis using Unlock_redis [OF None assms] by simp
next
  case (Some f)
  have l: "link (snd (redis_exec ''EVALSHA''
      [Str (hash unlockScript), GoInt 1, Str (key lock), Str (token lock)] s)) (conn lock) = Some f"
    using Some by (simp only: redis_exec_link)
  show ?thesis
    using Some l
    by (cases f) (simp_all add: Unlock_unfold redis_Do_def del: redis_exec.simps)
qed

lemma scripts_redis_exec:
  "scripts (snd (redis_exec cmd args w)) = scripts w
   \<or> scripts (snd (redis_exec cmd args w)) = (scripts w)(hash unlockScript \<mapsto> src unlockScript)"
  by (cases "(cmd, args, w)" rule: redis_exec.cases)
    (auto simp add: lua_load_def unlockScript_def NewScript_def split: option.splits)

lemma script_cache_ok_redis_Do:
  assumes "script_cache_ok w"
  shows "script_cache_ok (snd (redis_Do c w cmd args))"
proof -
  have "script_cache_ok (snd (redis_exec cmd args w))"
    using assms scripts_redis_exec [of cmd args w] by (auto simp add: script_cache_ok_def)
  then show ?thesis
    using assms by (simp add: redis_Do_def split: option.splits fault.splits)
qed

lemma script_cache_ok_Unlock:
  assumes "script_cache_ok s"
  shows "script_cache_ok (snd (Unlock redis_Do lock s))"
proof -
  let ?sha = "[Str (hash unlockScript), GoInt 1, Str (key lock), Str (token lock)]"
  let ?txt = "[Str (src unlockScript), GoInt 1, Str (key lock), Str (token lock)]"
  obtain v err s1 where a: "redis_Do (conn lock) s ''EVALSHA'' ?sha = ((v, err), s1)"
    by (metis prod.collapse)
  obtain v2 err2 s2 where b: "redis_Do (conn lock) s1 ''EVAL'' ?txt = ((v2, err2), s2)"
    by (metis prod.collapse)
  have 1: "script_cache_ok s1"
    using script_cache_ok_redis_Do [OF assms, of "conn lock" "''EVALSHA''" ?sha] a by simp
  have 2: "script_cache_ok s2"
    using script_cache_ok_redis_Do [OF 1, of "conn lock" "''EVAL''" ?txt] b by simp
  show ?thesis using a b 1 2 by (simp add: Unlock_unfold)
qed

lemma script_cache_ok_TryLock:
  assumes "script_cache_ok s"
  shows "script_cache_ok (snd (TryLock redis_Do t c r s))"
proof -
  let ?set = "[Str (''redislock:'' @ r), Str t, Str ''EX'', Int64 600, Str ''NX'']"
  obtain rep s1 where a: "redis_Do c s ''SET'' ?set = (rep, s1)" by (metis prod.collapse)
  have "script_cache_ok s1"
    using script_cache_ok_redis_Do [OF assms, of c "''SET''" ?set] a by simp
  then show ?thesis using a by (simp add: TryLock_unfold split: prod.splits)
qed

lemma Unlock_logged_new:
  "\<exists>new w'. snd (Unlock (logged Do) lock (log, w)) = (log @ new, w')
     \<and> (new = [(''EVALSHA'', [Str (hash unlockScript), GoInt 1, Str (key lock), Str (token lock)])]
        \<or> new = [(''EVALSHA'', [Str (hash unlockScript), GoInt 1, Str (key lock), Str (token lock)]),
                  (''EVAL'', [Str (src unlockScript), GoInt 1, Str (key lock), Str (token lock)])])"
  by (simp add: Unlock_logged Let_def split: prod.splits)

lemma Unlock_times_logged:
  assumes "a < length h"
  shows "\<exists>ress new w'. Unlock_times (logged Do) n (Some a) (h, (log, w)) = (ress, h, (log @ new, w'))
     \<and> length ress = n \<and> Inl NilDereference \<notin> set ress
     \<and> set new \<subseteq>
         {(''EVALSHA'', [Str (hash unlockScript), GoInt 1, Str (key (h ! a)), Str (token (h ! a))]),
          (''EVAL'', [Str (src unlockScript), GoInt 1, Str (key (h ! a)), Str (token (h ! a))])}
     \<and> length (filter (\<lambda>x. fst x = ''EVALSHA'') new) = n"
proof (induction n arbitrary: log w)
  case 0
  then show ?case by simp
next
  case (Suc n)
  obtain err lw1 where u: "Unlock (logged Do) (h ! a) (log, w) = (err, lw1)"
    by (metis prod.collapse)
  obtain new1 w1 where 1: "lw1 = (log @ new1, w1)"
    and n1: "new1 = [(''EVALSHA'', [Str (hash unlockScript), GoInt 1, Str (key (h ! a)), Str (token (h ! a))])]
        \<or> new1 = [(''EVALSHA'', [Str (hash unlockScript), GoInt 1, Str (key (h ! a)), Str (token (h ! a))]),
                  (''EVAL'', [Str (src unlockScript), GoInt 1, Str (key (h ! a)), Str (token (h ! a))])]"
    using Unlock_logged_new [of Do "h ! a" log w] u by auto
  obtain ress new w' where 2: "Unlock_times (logged Do) n (Some a) (h, (log @ new1, w1)) = (ress, h, ((log @ new1) @ new, w'))"
    and 3: "length ress = n" "Inl NilDereference \<notin> set ress"
      "set new \<subseteq>
         {(''EVALSHA'', [Str (hash unlockScript), GoInt 1, Str (key (h ! a)), Str (token (h ! a))]),
          (''EVAL'', [Str (src unlockScript), GoInt 1, Str (key (h ! a)), Str (token (h ! a))])}"
      "length (filter (\<lambda>x. fst x = ''EVALSHA'') new) = n"
    using Suc.IH [of "log @ new1" w1] by blast
  have "Unlock_times (logged Do) (Suc n) (Some a) (h, (log, w)) = (Inr err # ress, h, (log @ (new1 @ new), w'))"
    using assms u 1 2 by simp
  moreover have "set (new1 @ new) \<subseteq>
         {(''EVALSHA'', [Str (hash unlockScript), GoInt 1, Str (key (h ! a)), Str (token (h ! a))]),
          (''EVAL'', [Str (src unlockScript), GoInt 1, Str (key (h ! a)), Str (token (h ! a))])}"
    using n1 3(3) by auto
  moreover have "length (filter (\<lambda>x. fst x = ''EVALSHA'') (new1 @ new)) = Suc n"
    using n1 3(4) by auto
  ultimately show ?case using 3(1,2) by simp
qed

lemma TryLock_ptr_unfold:
  "TryLock_ptr Do t c r (h, w) =
     (let ((lock, ok, err), w') = TryLock Do t c r w
      in ((map_option (\<lambda>l. length h) lock, ok, err), h @ [\<lparr>resource = r, token = t, conn = c\<rparr>], w'))"
  by (simp add: TryLock_ptr_def TryLock_def Let_def split: prod.splits)

lemma op_call_Acquire:
  "op_call (Acquire t c r) =
     Send ''SET'' [Str (''redislock:'' @ r), Str t, Str ''EX'', Int64 600, Str ''NX'']
       (\<lambda>rep. Done (Acquired
          (case redis_String rep of
             (status, err) \<Rightarrow>
               if err = Some ErrNil then (None, False, None)
               else if err = None \<and> status = ''OK''
                 then (Some \<lparr>resource = r, token = t, conn = c\<rparr>, True, None)
               else (None, False, err))))"
  by (auto simp add: TryLock_call_def tryLock_call_def key_def lockTimeout_seconds Let_def
      fun_eq_iff split: prod.splits)

lemma op_call_Release:
  "op_call (Release lock) =
     Send ''EVALSHA'' [Str (hash unlockScript), GoInt 1, Str (key lock), Str (token lock)]
       (\<lambda>rep. if NOSCRIPT (snd rep) then Unlock_retry lock else Done (Released (snd rep)))"
  by (auto simp add: Unlock_call_def Script_Do_call_def Script_args_def keyCount_unlockScript
      Unlock_retry_def fun_eq_iff split: prod.splits)

lemma step_acquire:
  assumes "i < length (tasks \<sigma>)" and "tasks \<sigma> ! i = (Acquire t c r, op_call (Acquire t c r))"
    and "link (store \<sigma>) c = None"
  shows "step (Step i) \<sigma> =
     (if db (store \<sigma>) (''redislock:'' @ r) = None
      then \<sigma>\<lparr>store := (store \<sigma>)\<lparr>db := (db (store \<sigma>))(''redislock:'' @ r \<mapsto> (t, 600))\<rparr>,
             tasks := (tasks \<sigma>)[i := (Acquire t c r,
                        Done (Acquired (Some \<lparr>resource = r, token = t, conn = c\<rparr>, True, None)))],
             issued := \<lparr>resource = r, token = t, conn = c\<rparr> # issued \<sigma>,
             held := \<lparr>resource = r, token = t, conn = c\<rparr> # held \<sigma>\<rparr>
      else \<sigma>\<lparr>tasks := (tasks \<sigma>)[i := (Acquire t c r, Done (Acquired (None, False, None)))]\<rparr>)"
  using assms
  by (simp add: op_call_Acquire redis_Do_def redis_exec_SET del: redis_exec.simps op_call.simps)

lemma step_release:
  assumes "i < length (tasks \<sigma>)" and "tasks \<sigma> ! i = (Release lock, op_call (Release lock))"
    and "link (store \<sigma>) (conn lock) = None" and "script_cache_ok (store \<sigma>)"
  shows "step (Step i) \<sigma> =
     (if scripts (store \<sigma>) (hash unlockScript) = None
      then \<sigma>\<lparr>tasks := (tasks \<sigma>)[i := (Release lock, Unlock_retry lock)]\<rparr>
      else \<sigma>\<lparr>store := (store \<sigma>)\<lparr>db := (if holds (store \<sigma>) lock
                                          then (db (store \<sigma>))(key lock := None) else db (store \<sigma>))\<rparr>,
             tasks := (tasks \<sigma>)[i := (Release lock, Done (Released None))],
             held := removeAll lock (held \<sigma>)\<rparr>)"
proof (cases "scripts (store \<sigma>) (hash unlockScript)")
  case None
  then show ?thesis
    using assms(1-3)
    by (simp add: op_call_Release redis_Do_def redis_exec_EVALSHA_unknown Unlock_retry_def
        del: redis_exec.simps op_call.simps)
next
  case (Some x)
  then have c: "scripts (store \<sigma>) (hash unlockScript) = Some (src unlockScript)"
    using assms(4) by (simp add: script_cache_ok_def)
  show ?thesis
    using assms(1-3) c
    by (simp add: op_call_Release redis_Do_def redis_exec_EVALSHA_unlock holds_def
        del: redis_exec.simps op_call.simps)
qed

lemma step_retry:
  assumes "i < length (tasks \<sigma>)" and "tasks \<sigma> ! i = (Release lock, Unlock_retry lock)"
    and "link (store \<sigma>) (conn lock) = None"
  shows "step (Step i) \<sigma> =
     \<sigma>\<lparr>store := (store \<sigma>)\<lparr>db := (if holds (store \<sigma>) lock
                                      then (db (store \<sigma>))(key lock := None) else db (store \<sigma>)),
                           scripts := (scripts (store \<sigma>))(hash unlockScript \<mapsto> src unlockScript)\<rparr>,
        tasks := (tasks \<sigma>)[i := (Release lock, Done (Released None))],
        held := removeAll lock (held \<sigma>)\<rparr>"
  using assms
  by (simp add: Unlock_retry_def redis_Do_def redis_exec_EVAL_unlock holds_def
      del: redis_exec.simps)

section \<open>The claims\<close>

text \<open>
  Claim C2 (release). For every connection, \<^verbatim>\<open>Unlock\<close> sends \<^verbatim>\<open>EVALSHA\<close> with the hash of the
  unlock script, the lock's key and the lock's token; when that command fails with a
  \<^verbatim>\<open>NOSCRIPT\<close> error reply it sends \<^verbatim>\<open>EVAL\<close> with the text of the script, the same key and
  the same token, and nothing else; it returns the error of the last command it sent. The
  text denotes the compare-and-delete: the key is deleted when its value is the argument,
  and nothing changes otherwise. An \<^verbatim>\<open>EVALSHA\<close> the server does not know leaves the server as
  it was, so the script runs in one command. On the Redis server with a sound script cache:
  \<^verbatim>\<open>Unlock\<close> returns an error exactly when the connection fails; when the value at the key
  is not the lock's token (another value, or no key) the keyspace is unchanged, whatever the
  connection does; over a working connection \<^verbatim>\<open>Unlock\<close> returns no error, the keyspace
  loses the key exactly when its value is the token, the only other change is that the
  server now remembers the script, and a second \<^verbatim>\<open>Unlock\<close> returns no error and changes
  nothing at all.
\<close>

theorem Unlock_compare_and_delete:
  "snd (Unlock (logged Do) lock (log, w)) =
     (let ((v, err), w1) = Do (conn lock) w ''EVALSHA''
            [Str (hash unlockScript), GoInt 1, Str (key lock), Str (token lock)]
      in if NOSCRIPT err
         then (log @ [(''EVALSHA'', [Str (hash unlockScript), GoInt 1, Str (key lock), Str (token lock)]),
                      (''EVAL'', [Str (src unlockScript), GoInt 1, Str (key lock), Str (token lock)])],
               snd (Do (conn lock) w1 ''EVAL''
                      [Str (src unlockScript), GoInt 1, Str (key lock), Str (token lock)]))
         else (log @ [(''EVALSHA'', [Str (hash unlockScript), GoInt 1, Str (key lock), Str (token lock)])],
               w1))
   \<and> fst (Unlock Do lock w) =
       (let ((v, err), w1) = Do (conn lock) w ''EVALSHA''
              [Str (hash unlockScript), GoInt 1, Str (key lock), Str (token lock)]
        in if NOSCRIPT err
           then snd (fst (Do (conn lock) w1 ''EVAL''
                  [Str (src unlockScript), GoInt 1, Str (key lock), Str (token lock)]))
           else err)
   \<and> lua_load (src unlockScript) = Some unlockScript_lua
   \<and> unlockScript_lua [k] [a] ks =
       (if redis_get ks k = Some a then (RInt 1, ks(k := None)) else (RInt 0, ks))
   \<and> (scripts s (hash unlockScript) = None \<longrightarrow>
        redis_exec ''EVALSHA'' [Str (hash unlockScript), GoInt 1, Str (key lock), Str (token lock)] s
          = (RError ''NOSCRIPT No matching script. Please use EVAL.'', s))
   \<and> (script_cache_ok s \<longrightarrow>
        (fst (Unlock redis_Do lock s) \<noteq> None \<longleftrightarrow> link s (conn lock) \<noteq> None))
   \<and> (redis_get (db s) (key lock) \<noteq> Some (token lock) \<longrightarrow>
        db (snd (Unlock redis_Do lock s)) = db s)
   \<and> (script_cache_ok s \<and> link s (conn lock) = None \<longrightarrow>
        Unlock redis_Do lock s =
          (None, s\<lparr>db := (if redis_get (db s) (key lock) = Some (token lock)
                           then (db s)(key lock := None) else db s),
                   scripts := (scripts s)(hash unlockScript \<mapsto> src unlockScript)\<rparr>)
        \<and> Unlock redis_Do lock (snd (Unlock redis_Do lock s)) = (None, snd (Unlock redis_Do lock s)))"
proof (intro conjI impI)
  show "snd (Unlock (logged Do) lock (log, w)) =
     (let ((v, err), w1) = Do (conn lock) w ''EVALSHA''
            [Str (hash unlockScript), GoInt 1, Str (key lock), Str (token lock)]
      in if NOSCRIPT err
         then (log @ [(''EVALSHA'', [Str (hash unlockScript), GoInt 1, Str (key lock), Str (token lock)]),
                      (''EVAL'', [Str (src unlockScript), GoInt 1, Str (key lock), Str (token lock)])],
               snd (Do (conn lock) w1 ''EVAL''
                      [Str (src unlockScript), GoInt 1, Str (key lock), Str (token lock)]))
         else (log @ [(''EVALSHA'', [Str (hash unlockScript), GoInt 1, Str (key lock), Str (token lock)])],
               w1))"
    by (rule Unlock_logged)
  show "fst (Unlock Do lock w) =
       (let ((v, err), w1) = Do (conn lock) w ''EVALSHA''
              [Str (hash unlockScript), GoInt 1, Str (key lock), Str (token lock)]
        in if NOSCRIPT err
           then snd (fst (Do (conn lock) w1 ''EVAL''
                  [Str (src unlockScript), GoInt 1, Str (key lock), Str (token lock)]))
           else err)"
    by (simp add: Unlock_unfold Let_def split: prod.splits)
  show "lua_load (src unlockScript) = Some unlockScript_lua"
    by (rule lua_load_unlockScript)
  show "unlockScript_lua [k] [a] ks =
       (if redis_get ks k = Some a then (RInt 1, ks(k := None)) else (RInt 0, ks))"
    by (rule unlockScript_lua_one)
  show "redis_exec ''EVALSHA'' [Str (hash unlockScript), GoInt 1, Str (key lock), Str (token lock)] s
          = (RError ''NOSCRIPT No matching script. Please use EVAL.'', s)"
    if "scripts s (hash unlockScript) = None"
    using that by (rule redis_exec_EVALSHA_unknown)
  show "(fst (Unlock redis_Do lock s) \<noteq> None) = (link s (conn lock) \<noteq> None)"
    if "script_cache_ok s"
    using that by (rule Unlock_redis_error)
  show "db (snd (Unlock redis_Do lock s)) = db s"
    if "redis_get (db s) (key lock) \<noteq> Some (token lock)"
    using that Unlock_redis_db [of lock s] by (simp add: holds_def)
next
  assume a: "script_cache_ok s \<and> link s (conn lock) = None"
  let ?s1 = "s\<lparr>db := (if redis_get (db s) (key lock) = Some (token lock)
                           then (db s)(key lock := None) else db s),
                   scripts := (scripts s)(hash unlockScript \<mapsto> src unlockScript)\<rparr>"
  show 1: "Unlock redis_Do lock s = (None, ?s1)"
    using a Unlock_redis [of s lock] by (simp add: holds_def)
  have "link ?s1 (conn lock) = None" "script_cache_ok ?s1" "\<not> holds ?s1 lock"
    using a by (simp_all add: script_cache_ok_def holds_def redis_get_def)
  then have "Unlock redis_Do lock ?s1 = (None, ?s1)"
    using Unlock_redis [of ?s1 lock] by (simp add: map_upd_triv)
  then show "Unlock redis_Do lock (snd (Unlock redis_Do lock s)) = (None, snd (Unlock redis_Do lock s))"
    by (simp add: 1)
qed

theorem Unlock_compare_and_delete_witness:
  "Unlock redis_Do \<lparr>resource = ''user:123'', token = ''ta'', conn = 1\<rparr>
     \<lparr>db = [''redislock:user:123'' \<mapsto> (''tb'', 600)], link = Map.empty, scripts = Map.empty\<rparr>
     = (None, \<lparr>db = [''redislock:user:123'' \<mapsto> (''tb'', 600)], link = Map.empty,
               scripts = [hash unlockScript \<mapsto> src unlockScript]\<rparr>)
   \<and> Unlock redis_Do \<lparr>resource = ''user:123'', token = ''tb'', conn = 2\<rparr>
     \<lparr>db = [''redislock:user:123'' \<mapsto> (''tb'', 600)], link = Map.empty, scripts = Map.empty\<rparr>
     = (None, \<lparr>db = Map.empty, link = Map.empty,
               scripts = [hash unlockScript \<mapsto> src unlockScript]\<rparr>)"
proof -
  let ?A = "\<lparr>resource = ''user:123'', token = ''ta'', conn = 1\<rparr>"
  let ?B = "\<lparr>resource = ''user:123'', token = ''tb'', conn = 2\<rparr>"
  let ?s = "\<lparr>db = [''redislock:user:123'' \<mapsto> (''tb'', 600)], link = Map.empty, scripts = Map.empty\<rparr>"
  have h: "script_cache_ok ?s \<and> link ?s (conn ?A) = None"
    "script_cache_ok ?s \<and> link ?s (conn ?B) = None"
    by (simp_all add: script_cache_ok_def)
  have a: "redis_get (db ?s) (key ?A) \<noteq> Some (token ?A)"
    and b: "redis_get (db ?s) (key ?B) = Some (token ?B)"
    by (simp_all add: key_def redis_get_def)
  have "Unlock redis_Do ?A ?s =
      (None, ?s\<lparr>db := (if redis_get (db ?s) (key ?A) = Some (token ?A)
                         then (db ?s)(key ?A := None) else db ?s),
                 scripts := (scripts ?s)(hash unlockScript \<mapsto> src unlockScript)\<rparr>)"
    using h(1) Unlock_compare_and_delete [where lock = ?A and s = ?s and Do = redis_Do and w = ?s
        and log = "[]" and k = "[]" and a = "[]" and ks = Map.empty]
    by blast
  moreover have "Unlock redis_Do ?B ?s =
      (None, ?s\<lparr>db := (if redis_get (db ?s) (key ?B) = Some (token ?B)
                         then (db ?s)(key ?B := None) else db ?s),
                 scripts := (scripts ?s)(hash unlockScript \<mapsto> src unlockScript)\<rparr>)"
    using h(2) Unlock_compare_and_delete [where lock = ?B and s = ?s and Do = redis_Do and w = ?s
        and log = "[]" and k = "[]" and a = "[]" and ks = Map.empty]
    by blast
  ultimately show ?thesis
    using a b by (simp add: key_def)
qed

text \<open>
  Claim C3 (busy). When the store answers the conditional set with the nil reply and no
  error, \<^verbatim>\<open>TryLock\<close> returns a nil Lock, \<open>False\<close> and no error. On the Redis server behind a
  working connection this is the case whenever the key exists, and the store is unchanged.
\<close>

theorem TryLock_busy:
  "(fst (Do c w ''SET'' [Str (''redislock:'' @ r), Str t, Str ''EX'', Int64 600, Str ''NX'']) = (RNil, None)
      \<longrightarrow> fst (TryLock Do t c r w) = (None, False, None))
   \<and> (link s c = None \<and> db s (''redislock:'' @ r) \<noteq> None
      \<longrightarrow> TryLock redis_Do t c r s = ((None, False, None), s))"
proof (intro conjI impI)
  assume a: "fst (Do c w ''SET'' [Str (''redislock:'' @ r), Str t, Str ''EX'', Int64 600, Str ''NX'']) = (RNil, None)"
  obtain w' where "Do c w ''SET'' [Str (''redislock:'' @ r), Str t, Str ''EX'', Int64 600, Str ''NX''] = ((RNil, None), w')"
    using a by (metis prod.collapse)
  then show "fst (TryLock Do t c r w) = (None, False, None)"
    by (simp add: TryLock_unfold)
next
  assume "link s c = None \<and> db s (''redislock:'' @ r) \<noteq> None"
  then show "TryLock redis_Do t c r s = ((None, False, None), s)"
    by (simp add: TryLock_redis)
qed

theorem TryLock_busy_witness:
  "TryLock redis_Do ''t2'' 1 ''user:123''
     \<lparr>db = [''redislock:user:123'' \<mapsto> (''t1'', 600)], link = Map.empty, scripts = Map.empty\<rparr>
   = ((None, False, None), \<lparr>db = [''redislock:user:123'' \<mapsto> (''t1'', 600)], link = Map.empty, scripts = Map.empty\<rparr>)"
proof -
  let ?s = "\<lparr>db = [''redislock:user:123'' \<mapsto> (''t1'', 600)], link = Map.empty, scripts = Map.empty\<rparr>"
  have g: "fst (redis_Do 1 ?s ''SET'' [Str (''redislock:'' @ ''user:123''), Str ''t2'', Str ''EX'', Int64 600, Str ''NX''])
      = (RNil, None)"
    by (simp add: redis_Do_def redis_SET_EX_NX_def)
  have h: "link ?s 1 = None \<and> db ?s (''redislock:'' @ ''user:123'') \<noteq> None" by simp
  show ?thesis
    using g h TryLock_busy [where Do = redis_Do and c = 1 and w = ?s and s = ?s
        and r = "''user:123''" and t = "''t2''"]
    by blast
qed

text \<open>
  Claim C4 (success and Lock creation). \<^verbatim>\<open>TryLock\<close> returns a Lock exactly when it returns
  \<open>ok\<close> and no error, which is exactly when the reply to the conditional set converts to the
  string \<^verbatim>\<open>OK\<close> without error. The Lock then carries the resource given, the token minted
  in this call (the one in the command sent) and the connection. On a busy or failed attempt
  the Lock is nil.
\<close>

theorem TryLock_acquired:
  assumes "TryLock Do t c r w = ((lock, ok, err), w')"
  shows "(lock \<noteq> None \<longleftrightarrow> ok \<and> err = None)
       \<and> (ok \<longleftrightarrow> redis_String (fst (Do c w ''SET''
                  [Str (''redislock:'' @ r), Str t, Str ''EX'', Int64 600, Str ''NX''])) = (''OK'', None))
       \<and> (ok \<longrightarrow> err = None \<and> lock = Some \<lparr>resource = r, token = t, conn = c\<rparr>)
       \<and> (\<not> ok \<longrightarrow> lock = None)
       \<and> (err \<noteq> None \<longrightarrow> lock = None)"
  using assms
  by (auto simp add: TryLock_unfold Let_def split: prod.splits if_splits)

theorem TryLock_acquired_witness:
  "TryLock redis_Do ''t1'' 0 ''user:123'' \<lparr>db = Map.empty, link = Map.empty, scripts = Map.empty\<rparr>
     = ((Some \<lparr>resource = ''user:123'', token = ''t1'', conn = 0\<rparr>, True, None),
        \<lparr>db = [''redislock:user:123'' \<mapsto> (''t1'', 600)], link = Map.empty, scripts = Map.empty\<rparr>)
   \<and> redis_String (fst (redis_Do 0 \<lparr>db = Map.empty, link = Map.empty, scripts = Map.empty\<rparr> ''SET''
        [Str ''redislock:user:123'', Str ''t1'', Str ''EX'', Int64 600, Str ''NX''])) = (''OK'', None)"
proof -
  have h: "TryLock redis_Do ''t1'' 0 ''user:123'' \<lparr>db = Map.empty, link = Map.empty, scripts = Map.empty\<rparr>
     = ((Some \<lparr>resource = ''user:123'', token = ''t1'', conn = 0\<rparr>, True, None),
        \<lparr>db = [''redislock:user:123'' \<mapsto> (''t1'', 600)], link = Map.empty, scripts = Map.empty\<rparr>)"
    by (simp add: TryLock_redis)
  show ?thesis using h TryLock_acquired [OF h] by simp
qed

text \<open>
  Claim C5 (store errors are propagated). When \<^verbatim>\<open>Do\<close> returns an error other than
  \<^verbatim>\<open>ErrNil\<close> for the conditional set, \<^verbatim>\<open>TryLock\<close> returns a nil Lock, \<open>False\<close> and that very
  error, and it has sent exactly one command: there is no retry.
\<close>

theorem TryLock_store_error:
  assumes "Do c w ''SET'' [Str (''redislock:'' @ r), Str t, Str ''EX'', Int64 600, Str ''NX'']
             = ((rep, Some e), w')"
    and "e \<noteq> ErrNil"
  shows "TryLock Do t c r w = ((None, False, Some e), w')
       \<and> snd (TryLock (logged Do) t c r (log, w)) =
           (log @ [(''SET'', [Str (''redislock:'' @ r), Str t, Str ''EX'', Int64 600, Str ''NX''])], w')"
proof
  show "TryLock Do t c r w = ((None, False, Some e), w')"
    using assms by (simp add: TryLock_unfold)
  show "snd (TryLock (logged Do) t c r (log, w)) =
           (log @ [(''SET'', [Str (''redislock:'' @ r), Str t, Str ''EX'', Int64 600, Str ''NX''])], w')"
    using assms(1) by (simp add: TryLock_logged)
qed

theorem TryLock_store_error_witness:
  "TryLock redis_Do ''t1'' 0 ''user:123''
     \<lparr>db = Map.empty, link = [0 \<mapsto> Unreachable (IOError ''connection refused'')],
        scripts = Map.empty\<rparr>
   = ((None, False, Some (IOError ''connection refused'')),
      \<lparr>db = Map.empty, link = [0 \<mapsto> Unreachable (IOError ''connection refused'')],
        scripts = Map.empty\<rparr>)"
proof -
  have h: "redis_Do 0 \<lparr>db = Map.empty, link = [0 \<mapsto> Unreachable (IOError ''connection refused'')],
        scripts = Map.empty\<rparr>
      ''SET'' [Str (''redislock:'' @ ''user:123''), Str ''t1'', Str ''EX'', Int64 600, Str ''NX'']
    = ((RNil, Some (IOError ''connection refused'')),
       \<lparr>db = Map.empty, link = [0 \<mapsto> Unreachable (IOError ''connection refused'')],
        scripts = Map.empty\<rparr>)"
    by (simp add: redis_Do_def)
  have g: "IOError ''connection refused'' \<noteq> ErrNil" by simp
  show ?thesis
    using h g TryLock_store_error [where Do = redis_Do and c = 0 and r = "''user:123''"
        and t = "''t1''" and rep = RNil and e = "IOError ''connection refused''"
        and w = "\<lparr>db = Map.empty, link = [0 \<mapsto> Unreachable (IOError ''connection refused'')],
        scripts = Map.empty\<rparr>"
        and w' = "\<lparr>db = Map.empty, link = [0 \<mapsto> Unreachable (IOError ''connection refused'')],
        scripts = Map.empty\<rparr>"
        and log = "[]"]
    by simp
qed

text \<open>
  Claim C6 (key namespacing). The key of a Lock is \<^verbatim>\<open>redislock:\<close> followed by its resource,
  and two Locks have the same key exactly when they have the same resource. The command of
  \<^verbatim>\<open>tryLock\<close> carries that key, and so does every command \<^verbatim>\<open>Unlock\<close> sends (it sends at
  least one), for every connection. On the Redis server, an acquisition or a release for one
  resource leaves the key of any other resource as it was and does not change the result of
  an acquisition of the other resource.
\<close>

theorem key_namespacing:
  "key lock = ''redislock:'' @ resource lock
   \<and> (key l1 = key l2 \<longleftrightarrow> resource l1 = resource l2)
   \<and> fst (snd (tryLock (logged Do) lock ([], w))) =
       [(''SET'', [Str (''redislock:'' @ resource lock), Str (token lock), Str ''EX'', Int64 600, Str ''NX''])]
   \<and> fst (snd (Unlock (logged Do) lock ([], w))) \<noteq> []
   \<and> set (fst (snd (Unlock (logged Do) lock ([], w)))) \<subseteq>
       {(''EVALSHA'', [Str (hash unlockScript), GoInt 1, Str (''redislock:'' @ resource lock), Str (token lock)]),
        (''EVAL'', [Str (src unlockScript), GoInt 1, Str (''redislock:'' @ resource lock), Str (token lock)])}
   \<and> (r1 \<noteq> r2 \<longrightarrow>
        fst (TryLock redis_Do t2 c2 r2 (snd (TryLock redis_Do t1 c1 r1 s))) = fst (TryLock redis_Do t2 c2 r2 s)
        \<and> db (snd (TryLock redis_Do t1 c1 r1 s)) (''redislock:'' @ r2) = db s (''redislock:'' @ r2))
   \<and> (resource lock \<noteq> r2 \<longrightarrow>
        fst (TryLock redis_Do t2 c2 r2 (snd (Unlock redis_Do lock s))) = fst (TryLock redis_Do t2 c2 r2 s)
        \<and> db (snd (Unlock redis_Do lock s)) (''redislock:'' @ r2) = db s (''redislock:'' @ r2))"
proof (intro conjI impI)
  show "key lock = ''redislock:'' @ resource lock" by (simp add: key_def)
  show "(key l1 = key l2) = (resource l1 = resource l2)" by (simp add: key_def)
  show "fst (snd (tryLock (logged Do) lock ([], w))) =
       [(''SET'', [Str (''redislock:'' @ resource lock), Str (token lock), Str ''EX'', Int64 600, Str ''NX''])]"
    by (simp add: tryLock_logged key_def)
  obtain new w' where u: "snd (Unlock (logged Do) lock ([], w)) = ([] @ new, w')"
    and n: "new = [(''EVALSHA'', [Str (hash unlockScript), GoInt 1, Str (key lock), Str (token lock)])]
        \<or> new = [(''EVALSHA'', [Str (hash unlockScript), GoInt 1, Str (key lock), Str (token lock)]),
                  (''EVAL'', [Str (src unlockScript), GoInt 1, Str (key lock), Str (token lock)])]"
    using Unlock_logged_new [of Do lock "[]" w] by blast
  show "fst (snd (Unlock (logged Do) lock ([], w))) \<noteq> []"
    using u n by auto
  show "set (fst (snd (Unlock (logged Do) lock ([], w)))) \<subseteq>
       {(''EVALSHA'', [Str (hash unlockScript), GoInt 1, Str (''redislock:'' @ resource lock), Str (token lock)]),
        (''EVAL'', [Str (src unlockScript), GoInt 1, Str (''redislock:'' @ resource lock), Str (token lock)])}"
    using u n by (auto simp add: key_def)
next
  assume ne: "r1 \<noteq> r2"
  have l: "link (snd (TryLock redis_Do t1 c1 r1 s)) = link s"
    by (simp add: TryLock_redis split: option.splits fault.splits)
  show d: "db (snd (TryLock redis_Do t1 c1 r1 s)) (''redislock:'' @ r2) = db s (''redislock:'' @ r2)"
    using ne by (simp add: TryLock_redis split: option.splits fault.splits)
  show "fst (TryLock redis_Do t2 c2 r2 (snd (TryLock redis_Do t1 c1 r1 s))) = fst (TryLock redis_Do t2 c2 r2 s)"
    by (simp only: TryLock_redis_fst l d)
next
  assume ne: "resource lock \<noteq> r2"
  have l: "link (snd (Unlock redis_Do lock s)) = link s"
    by (rule Unlock_redis_link)
  show d: "db (snd (Unlock redis_Do lock s)) (''redislock:'' @ r2) = db s (''redislock:'' @ r2)"
    using ne Unlock_redis_db [of lock s] by (auto simp add: key_def)
  show "fst (TryLock redis_Do t2 c2 r2 (snd (Unlock redis_Do lock s))) = fst (TryLock redis_Do t2 c2 r2 s)"
    by (simp only: TryLock_redis_fst l d)
qed

theorem key_namespacing_witness:
  "fst (TryLock redis_Do ''tb'' 2 ''b''
          (snd (TryLock redis_Do ''ta'' 1 ''a'' \<lparr>db = Map.empty, link = Map.empty, scripts = Map.empty\<rparr>)))
     = (Some \<lparr>resource = ''b'', token = ''tb'', conn = 2\<rparr>, True, None)
   \<and> fst (TryLock redis_Do ''tb'' 2 ''b''
          (snd (Unlock redis_Do \<lparr>resource = ''a'', token = ''ta'', conn = 1\<rparr>
                 \<lparr>db = Map.empty, link = Map.empty, scripts = Map.empty\<rparr>)))
     = (Some \<lparr>resource = ''b'', token = ''tb'', conn = 2\<rparr>, True, None)"
proof -
  let ?s = "\<lparr>db = Map.empty, link = Map.empty, scripts = Map.empty\<rparr>"
  let ?A = "\<lparr>resource = ''a'', token = ''ta'', conn = 1\<rparr>"
  have h: "''a'' \<noteq> ''b''" "resource ?A \<noteq> ''b''" by simp_all
  have g: "fst (TryLock redis_Do ''tb'' 2 ''b'' ?s) = (Some \<lparr>resource = ''b'', token = ''tb'', conn = 2\<rparr>, True, None)"
    by (simp add: TryLock_redis)
  show ?thesis
    using h g key_namespacing [where ?r1.0 = "''a''" and ?r2.0 = "''b''" and s = ?s and ?t1.0 = "''ta''"
        and ?t2.0 = "''tb''" and ?c1.0 = 1 and ?c2.0 = 2 and lock = ?A and ?l1.0 = ?A and ?l2.0 = ?A
        and Do = redis_Do and w = ?s]
    by metis
qed

text \<open>
  Claim C8 (fixed lease). The expiry is the constant \<open>lockTimeout\<close> divided by a second:
  600 in redislock.go and 60 in the second version, with remainder 0, so nothing is lost by
  the division, and both constants fit an int64. Whatever the lock, the connection and its
  state, the one command \<^verbatim>\<open>tryLock\<close> sends carries that number after \<^verbatim>\<open>EX\<close>: it is not a
  parameter of the call.
\<close>

theorem lease_ttl_fixed:
  "lockTimeout sdiv Second = 600 \<and> lockTimeout smod Second = 0 \<and> lockTimeout = 600 * Second
   \<and> fits_int64 lockTimeout
   \<and> lockTimeout_v2 sdiv Second = 60 \<and> lockTimeout_v2 smod Second = 0
   \<and> lockTimeout_v2 = 60 * Second \<and> fits_int64 lockTimeout_v2
   \<and> fst (snd (tryLock (logged Do) lock (log, w))) =
       log @ [(''SET'', [Str (key lock), Str (token lock), Str ''EX'', Int64 600, Str ''NX''])]
   \<and> fst (snd (tryLock_v2 (logged Do) lock (log, w))) =
       log @ [(''SET'', [Str (key lock), Str (token lock), Str ''EX'', Int64 60, Str ''NX''])]"
proof -
  have a: "lockTimeout = 600000000000" and b: "lockTimeout_v2 = 60000000000"
    and c: "Second = 1000000000"
    by (simp_all add: lockTimeout_def lockTimeout_v2_def Minute_def Second_def Millisecond_def
        Microsecond_def Nanosecond_def)
  have "lockTimeout smod Second = 0" "lockTimeout = 600 * Second"
    "lockTimeout_v2 smod Second = 0" "lockTimeout_v2 = 60 * Second"
    "fits_int64 lockTimeout" "fits_int64 lockTimeout_v2"
    by (simp_all add: a b c signed_modulo_int_def fits_int64_def)
  then show ?thesis
    by (simp add: lockTimeout_seconds lockTimeout_v2_seconds tryLock_logged tryLock_v2_logged)
qed

text \<open>
  Claim C9 (the two versions). When the store gives the two versions the same reply, their
  \<^verbatim>\<open>tryLock\<close> return the same \<open>(ok, err)\<close> and their \<^verbatim>\<open>TryLock\<close> the same Lock, \<open>ok\<close> and
  \<open>err\<close>; when the store treats the two commands alike, the final states agree as well. The
  commands they send differ in the number after \<^verbatim>\<open>EX\<close> only: 600 and 60. (\<^verbatim>\<open>key\<close>,
  \<^verbatim>\<open>Unlock\<close> and the script are the same text in both versions.)
\<close>

theorem versions_equivalent:
  "(fst (Do (conn lock) w ''SET'' [Str (key lock), Str (token lock), Str ''EX'', Int64 600, Str ''NX''])
      = fst (Do2 (conn lock) w2 ''SET'' [Str (key lock), Str (token lock), Str ''EX'', Int64 60, Str ''NX''])
    \<longrightarrow> fst (tryLock Do lock w) = fst (tryLock_v2 Do2 lock w2)
      \<and> fst (TryLock Do (token lock) (conn lock) (resource lock) w)
          = fst (TryLock_v2 Do2 (token lock) (conn lock) (resource lock) w2))
   \<and> (Do (conn lock) w ''SET'' [Str (key lock), Str (token lock), Str ''EX'', Int64 600, Str ''NX'']
      = Do (conn lock) w ''SET'' [Str (key lock), Str (token lock), Str ''EX'', Int64 60, Str ''NX'']
    \<longrightarrow> tryLock Do lock w = tryLock_v2 Do lock w
      \<and> TryLock Do (token lock) (conn lock) (resource lock) w
          = TryLock_v2 Do (token lock) (conn lock) (resource lock) w)
   \<and> fst (snd (tryLock (logged Do) lock (log, w))) =
       log @ [(''SET'', [Str (key lock), Str (token lock), Str ''EX'', Int64 600, Str ''NX''])]
   \<and> fst (snd (tryLock_v2 (logged Do) lock (log, w))) =
       log @ [(''SET'', [Str (key lock), Str (token lock), Str ''EX'', Int64 60, Str ''NX''])]"
proof (intro conjI impI)
  let ?a = "Do (conn lock) w ''SET'' [Str (key lock), Str (token lock), Str ''EX'', Int64 600, Str ''NX'']"
  let ?b = "Do2 (conn lock) w2 ''SET'' [Str (key lock), Str (token lock), Str ''EX'', Int64 60, Str ''NX'']"
  assume e: "fst ?a = fst ?b"
  obtain rep err w' where a: "?a = ((rep, err), w')" by (metis prod.collapse)
  obtain w2' where b: "?b = ((rep, err), w2')" using e a by (metis fst_conv prod.collapse)
  obtain status err' where s: "redis_String (rep, err) = (status, err')" by (cases "redis_String (rep, err)")
  show "fst (tryLock Do lock w) = fst (tryLock_v2 Do2 lock w2)"
    using a b s by (auto simp add: tryLock_def tryLock_v2_def lockTimeout_seconds lockTimeout_v2_seconds)
  show "fst (TryLock Do (token lock) (conn lock) (resource lock) w)
          = fst (TryLock_v2 Do2 (token lock) (conn lock) (resource lock) w2)"
    using a b s by (auto simp add: TryLock_unfold TryLock_v2_unfold key_def)
next
  let ?a = "Do (conn lock) w ''SET'' [Str (key lock), Str (token lock), Str ''EX'', Int64 600, Str ''NX'']"
  let ?b = "Do (conn lock) w ''SET'' [Str (key lock), Str (token lock), Str ''EX'', Int64 60, Str ''NX'']"
  assume e: "?a = ?b"
  obtain rep err w' where a: "?a = ((rep, err), w')" by (metis prod.collapse)
  have b: "?b = ((rep, err), w')" using e a by simp
  obtain status err' where s: "redis_String (rep, err) = (status, err')" by (cases "redis_String (rep, err)")
  show "tryLock Do lock w = tryLock_v2 Do lock w"
    using a b s by (auto simp add: tryLock_def tryLock_v2_def lockTimeout_seconds lockTimeout_v2_seconds)
  show "TryLock Do (token lock) (conn lock) (resource lock) w
          = TryLock_v2 Do (token lock) (conn lock) (resource lock) w"
    using a b s by (auto simp add: TryLock_unfold TryLock_v2_unfold key_def)
next
  show "fst (snd (tryLock (logged Do) lock (log, w))) =
       log @ [(''SET'', [Str (key lock), Str (token lock), Str ''EX'', Int64 600, Str ''NX''])]"
    by (simp add: tryLock_logged)
  show "fst (snd (tryLock_v2 (logged Do) lock (log, w))) =
       log @ [(''SET'', [Str (key lock), Str (token lock), Str ''EX'', Int64 60, Str ''NX''])]"
    by (simp add: tryLock_v2_logged)
qed

theorem versions_equivalent_witness:
  "tryLock redis_Do \<lparr>resource = ''user:123'', token = ''t2'', conn = 1\<rparr>
       \<lparr>db = [''redislock:user:123'' \<mapsto> (''t1'', 600)], link = Map.empty, scripts = Map.empty\<rparr>
     = tryLock_v2 redis_Do \<lparr>resource = ''user:123'', token = ''t2'', conn = 1\<rparr>
       \<lparr>db = [''redislock:user:123'' \<mapsto> (''t1'', 600)], link = Map.empty, scripts = Map.empty\<rparr>
   \<and> fst (TryLock redis_Do ''t2'' 1 ''user:123''
       \<lparr>db = [''redislock:user:123'' \<mapsto> (''t1'', 600)], link = Map.empty, scripts = Map.empty\<rparr>)
     = fst (TryLock_v2 redis_Do ''t2'' 1 ''user:123''
       \<lparr>db = [''redislock:user:123'' \<mapsto> (''t1'', 600)], link = Map.empty, scripts = Map.empty\<rparr>)"
proof -
  let ?L = "\<lparr>resource = ''user:123'', token = ''t2'', conn = 1\<rparr>"
  let ?s = "\<lparr>db = [''redislock:user:123'' \<mapsto> (''t1'', 600)], link = Map.empty, scripts = Map.empty\<rparr>"
  have h: "redis_Do (conn ?L) ?s ''SET'' [Str (key ?L), Str (token ?L), Str ''EX'', Int64 600, Str ''NX'']
      = redis_Do (conn ?L) ?s ''SET'' [Str (key ?L), Str (token ?L), Str ''EX'', Int64 60, Str ''NX'']"
    by (simp add: redis_Do_def key_def redis_SET_EX_NX_def)
  have t: "token ?L = ''t2''" "conn ?L = 1" "resource ?L = ''user:123''" by simp_all
  show ?thesis
    using h versions_equivalent [where Do = redis_Do and ?Do2.0 = redis_Do and lock = ?L
        and w = ?s and ?w2.0 = ?s and log = "[]"]
    unfolding t by metis
qed

text \<open>
  Claim C10 (a Lock is not changed after construction). \<^verbatim>\<open>TryLock\<close> allocates the Lock at
  a new address with the resource and connection given and the token minted, and changes no
  other object. \<^verbatim>\<open>key\<close> and \<^verbatim>\<open>Unlock\<close>, called through any pointer on any heap, return the
  heap they were given: no field of any Lock is changed. So for a Lock returned by
  \<^verbatim>\<open>TryLock\<close>, after any number \<open>n\<close> of calls of \<^verbatim>\<open>Unlock\<close> through the pointer the heap
  is the one \<^verbatim>\<open>TryLock\<close> left, no call panics, every command sent carries the key and the
  token that the acquisition sent, and exactly \<open>n\<close> of them are \<^verbatim>\<open>EVALSHA\<close>: one for each
  call.
\<close>

theorem Lock_not_changed:
  assumes "TryLock_ptr (logged Do) t c r (h, (log, w)) = ((Some a, ok, err), (h1, (log1, w1)))"
  shows "a = length h \<and> h1 = h @ [\<lparr>resource = r, token = t, conn = c\<rparr>]
     \<and> log1 = log @ [(''SET'', [Str (''redislock:'' @ r), Str t, Str ''EX'', Int64 600, Str ''NX''])]
     \<and> key_ptr (Some a) h1 = (Inr (''redislock:'' @ r), h1)
     \<and> snd (key_ptr p h0) = h0
     \<and> fst (snd (Unlock_ptr Do0 p (h0, w0))) = h0
     \<and> (\<exists>ress new w'.
          Unlock_times (logged Do) n (Some a) (h1, (log1, w1)) = (ress, h1, (log1 @ new, w'))
          \<and> length ress = n \<and> Inl NilDereference \<notin> set ress
          \<and> set new \<subseteq>
              {(''EVALSHA'', [Str (hash unlockScript), GoInt 1, Str (''redislock:'' @ r), Str t]),
               (''EVAL'', [Str (src unlockScript), GoInt 1, Str (''redislock:'' @ r), Str t])}
          \<and> length (filter (\<lambda>x. fst x = ''EVALSHA'') new) = n)"
proof (intro conjI)
  obtain lock w' where T: "TryLock (logged Do) t c r (log, w) = ((lock, ok, err), w')"
    and 1: "Some a = map_option (\<lambda>l. length h) lock" "h1 = h @ [\<lparr>resource = r, token = t, conn = c\<rparr>]"
      "(log1, w1) = w'"
    using assms by (auto simp add: TryLock_ptr_unfold Let_def split: prod.splits)
  show a: "a = length h" using 1(1) by (cases lock) simp_all
  show h1: "h1 = h @ [\<lparr>resource = r, token = t, conn = c\<rparr>]" by (rule 1(2))
  show "log1 = log @ [(''SET'', [Str (''redislock:'' @ r), Str t, Str ''EX'', Int64 600, Str ''NX''])]"
    using TryLock_logged [of Do t c r log w] T 1(3) by (metis fst_conv snd_conv)
  show "key_ptr (Some a) h1 = (Inr (''redislock:'' @ r), h1)"
    by (simp add: a h1 key_def)
  show "snd (key_ptr p h0) = h0"
    by (cases p) simp_all
  show "fst (snd (Unlock_ptr Do0 p (h0, w0))) = h0"
    by (cases p) (simp_all split: prod.splits)
  have "a < length h1" "key (h1 ! a) = ''redislock:'' @ r" "token (h1 ! a) = t"
    by (simp_all add: a h1 key_def)
  then show "\<exists>ress new w'.
          Unlock_times (logged Do) n (Some a) (h1, (log1, w1)) = (ress, h1, (log1 @ new, w'))
          \<and> length ress = n \<and> Inl NilDereference \<notin> set ress
          \<and> set new \<subseteq>
              {(''EVALSHA'', [Str (hash unlockScript), GoInt 1, Str (''redislock:'' @ r), Str t]),
               (''EVAL'', [Str (src unlockScript), GoInt 1, Str (''redislock:'' @ r), Str t])}
          \<and> length (filter (\<lambda>x. fst x = ''EVALSHA'') new) = n"
    using Unlock_times_logged [of a h1 Do n log1 w1] by simp
qed

theorem Lock_not_changed_witness:
  "TryLock_ptr (logged redis_Do) ''t1'' 1 ''user:123''
       ([], ([], \<lparr>db = Map.empty, link = Map.empty, scripts = Map.empty\<rparr>))
     = ((Some 0, True, None),
        ([\<lparr>resource = ''user:123'', token = ''t1'', conn = 1\<rparr>],
         ([(''SET'', [Str ''redislock:user:123'', Str ''t1'', Str ''EX'', Int64 600, Str ''NX''])],
          \<lparr>db = [''redislock:user:123'' \<mapsto> (''t1'', 600)], link = Map.empty, scripts = Map.empty\<rparr>)))
   \<and> (\<exists>ress new w'.
        Unlock_times (logged redis_Do) 2 (Some 0)
          ([\<lparr>resource = ''user:123'', token = ''t1'', conn = 1\<rparr>],
           ([(''SET'', [Str ''redislock:user:123'', Str ''t1'', Str ''EX'', Int64 600, Str ''NX''])],
            \<lparr>db = [''redislock:user:123'' \<mapsto> (''t1'', 600)], link = Map.empty, scripts = Map.empty\<rparr>))
          = (ress, [\<lparr>resource = ''user:123'', token = ''t1'', conn = 1\<rparr>],
             ([(''SET'', [Str ''redislock:user:123'', Str ''t1'', Str ''EX'', Int64 600, Str ''NX''])] @ new, w'))
        \<and> length ress = 2
        \<and> set new \<subseteq>
            {(''EVALSHA'', [Str (hash unlockScript), GoInt 1, Str ''redislock:user:123'', Str ''t1'']),
             (''EVAL'', [Str (src unlockScript), GoInt 1, Str ''redislock:user:123'', Str ''t1''])}
        \<and> length (filter (\<lambda>x. fst x = ''EVALSHA'') new) = 2)"
proof -
  let ?s = "\<lparr>db = Map.empty, link = Map.empty, scripts = Map.empty\<rparr>"
  let ?s1 = "\<lparr>db = [''redislock:user:123'' \<mapsto> (''t1'', 600)], link = Map.empty, scripts = Map.empty\<rparr>"
  let ?L = "\<lparr>resource = ''user:123'', token = ''t1'', conn = 1\<rparr>"
  let ?log1 = "[(''SET'', [Str ''redislock:user:123'', Str ''t1'', Str ''EX'', Int64 600, Str ''NX''])]"
  have h: "TryLock_ptr (logged redis_Do) ''t1'' 1 ''user:123'' ([], ([], ?s))
     = ((Some 0, True, None), ([?L], (?log1, ?s1)))"
    by (simp add: TryLock_ptr_unfold TryLock_unfold logged_def redis_Do_def redis_SET_EX_NX_def)
  note t = Lock_not_changed [OF h, of "Some 0" "[?L]" redis_Do ?s 2]
  have k: "''redislock:'' @ ''user:123'' = ''redislock:user:123''" by simp
  have e: "\<exists>ress new w'.
        Unlock_times (logged redis_Do) 2 (Some 0) ([?L], (?log1, ?s1))
          = (ress, [?L], (?log1 @ new, w'))
        \<and> length ress = 2 \<and> Inl NilDereference \<notin> set ress
        \<and> set new \<subseteq>
            {(''EVALSHA'', [Str (hash unlockScript), GoInt 1, Str ''redislock:user:123'', Str ''t1'']),
             (''EVAL'', [Str (src unlockScript), GoInt 1, Str ''redislock:user:123'', Str ''t1''])}
        \<and> length (filter (\<lambda>x. fst x = ''EVALSHA'') new) = 2"
    using t unfolding k by (elim conjE)
  then obtain ress new w' where
    "Unlock_times (logged redis_Do) 2 (Some 0) ([?L], (?log1, ?s1)) = (ress, [?L], (?log1 @ new, w'))"
    "length ress = 2"
    "set new \<subseteq>
            {(''EVALSHA'', [Str (hash unlockScript), GoInt 1, Str ''redislock:user:123'', Str ''t1'']),
             (''EVAL'', [Str (src unlockScript), GoInt 1, Str ''redislock:user:123'', Str ''t1''])}"
    "length (filter (\<lambda>x. fst x = ''EVALSHA'') new) = 2"
    by blast
  then have "\<exists>ress new w'.
        Unlock_times (logged redis_Do) 2 (Some 0) ([?L], (?log1, ?s1))
          = (ress, [?L], (?log1 @ new, w'))
        \<and> length ress = 2
        \<and> set new \<subseteq>
            {(''EVALSHA'', [Str (hash unlockScript), GoInt 1, Str ''redislock:user:123'', Str ''t1'']),
             (''EVAL'', [Str (src unlockScript), GoInt 1, Str ''redislock:user:123'', Str ''t1''])}
        \<and> length (filter (\<lambda>x. fst x = ''EVALSHA'') new) = 2"
    by blast
  then show ?thesis using h by (intro conjI)
qed

end
